theory Spec2Isabelle
  imports Complex_Main "HOL-Library.List_Lexorder"
begin

section \<open>Python strings\<close>

text \<open>
  A Python \<^verbatim>\<open>str\<close> is a sequence of Unicode code points, and \<^verbatim>\<open>len\<close>,
  \<^verbatim>\<open>strip\<close> and \<^verbatim>\<open>split\<close> work on code points. The recognised text is
  mostly Chinese, so a string is modelled as the list of its code points; \<open>ascii\<close>
  embeds the ASCII literals of the source.
\<close>

type_synonym pystr = "nat list"

definition ascii :: "string \<Rightarrow> pystr" where
  "ascii s = map of_char s"

text \<open>
  \<^verbatim>\<open>str.isspace\<close> on one code point: the characters that \<^verbatim>\<open>str.strip()\<close> and
  \<^verbatim>\<open>str.split()\<close> treat as whitespace (tab to carriage return, the four
  separators 0x1C to 0x1F, space, NEL, no-break space, and the Unicode space separators,
  among them the ideographic space 0x3000).
\<close>

definition isspace :: "nat \<Rightarrow> bool" where
  "isspace c \<longleftrightarrow>
     (9 \<le> c \<and> c \<le> 13) \<or> (28 \<le> c \<and> c \<le> 32) \<or> c = 133 \<or> c = 160 \<or> c = 5760 \<or>
     (8192 \<le> c \<and> c \<le> 8202) \<or> c = 8232 \<or> c = 8233 \<or> c = 8239 \<or> c = 8287 \<or> c = 12288"

text \<open>\<^verbatim>\<open>s.strip()\<close>: whitespace removed at both ends.\<close>

definition strip :: "pystr \<Rightarrow> pystr" where
  "strip s = rev (dropWhile isspace (rev (dropWhile isspace s)))"

text \<open>\<^verbatim>\<open>sep.join(xs)\<close>.\<close>

fun join :: "pystr \<Rightarrow> pystr list \<Rightarrow> pystr" where
  "join sep [] = []"
| "join sep [x] = x"
| "join sep (x # y # ys) = x @ sep @ join sep (y # ys)"

text \<open>
  \<^verbatim>\<open>s.split()\<close>: the maximal runs of non-whitespace characters. \<open>split_acc\<close>
  carries the run being read.
\<close>

fun split_acc :: "pystr \<Rightarrow> pystr \<Rightarrow> pystr list" where
  "split_acc acc [] = (if acc = [] then [] else [acc])"
| "split_acc acc (c # cs) =
     (if isspace c then (if acc = [] then split_acc [] cs else acc # split_acc [] cs)
      else split_acc (acc @ [c]) cs)"

definition split :: "pystr \<Rightarrow> pystr list" where
  "split s = split_acc [] s"

section \<open>The recognition service's answers\<close>

text \<open>
  The service answers with a JSON object that the client reads as a dictionary. Each key
  the code looks up is a field that may be absent. A word carries its text under
  \<^verbatim>\<open>'words'\<close> and its box under \<^verbatim>\<open>'location'\<close>; a table answer carries
  \<^verbatim>\<open>'form_result'\<close>, a list of entries with an optional \<^verbatim>\<open>'row'\<close> of cells; a
  refused request carries \<^verbatim>\<open>'error_code'\<close> and \<^verbatim>\<open>'error_msg'\<close>.
\<close>

record location =
  loc_top :: "int option"
  loc_left :: "int option"
  loc_width :: "int option"
  loc_height :: "int option"

record word_info =
  words :: "pystr option"
  location :: "location option"

record form_entry =
  row :: "pystr list option"

record ocr_result =
  words_result :: "word_info list option"
  form_result :: "form_entry list option"
  error_code :: "nat option"
  error_msg :: "pystr option"

section \<open>Layout reconstruction: \<^verbatim>\<open>BaiduOCRClient.convert_to_markdown\<close>\<close>

text \<open>\<^verbatim>\<open>word_info.get('words', '')\<close> and \<^verbatim>\<open>word_info.get('location', {}).get('top', 0)\<close>.\<close>

definition word_of :: "word_info \<Rightarrow> pystr" where
  "word_of wi = (case words wi of None \<Rightarrow> [] | Some w \<Rightarrow> w)"

definition top_of :: "word_info \<Rightarrow> int" where
  "top_of wi =
     (case location wi of None \<Rightarrow> 0
      | Some l \<Rightarrow> (case loc_top l of None \<Rightarrow> 0 | Some t \<Rightarrow> t))"

text \<open>
  The loop's variables: \<^verbatim>\<open>lines\<close>, \<^verbatim>\<open>current_line\<close> and \<^verbatim>\<open>last_y\<close>
  (\<^verbatim>\<open>None\<close> before the first word).
\<close>

record md_state =
  lines :: "pystr list"
  current_line :: pystr
  last_y :: "int option"

text \<open>
  \<^verbatim>\<open>if current_line.strip(): lines.append(current_line.strip())\<close>, which the source
  does at every line break and once more after the loop.
\<close>

definition flush :: "pystr list \<Rightarrow> pystr \<Rightarrow> pystr list" where
  "flush ls cur = (if strip cur \<noteq> [] then ls @ [strip cur] else ls)"

text \<open>One iteration of the loop over \<^verbatim>\<open>ocr_result['words_result']\<close>.\<close>

definition md_step :: "md_state \<Rightarrow> word_info \<Rightarrow> md_state" where
  "md_step st wi =
     (let word = word_of wi; y = top_of wi in
      (case last_y st of
         Some ly \<Rightarrow>
           if \<bar>y - ly\<bar> > 20
           then \<lparr>lines = flush (lines st) (current_line st), current_line = word, last_y = Some y\<rparr>
           else \<lparr>lines = lines st, current_line = current_line st @ ascii '' '' @ word,
                  last_y = Some y\<rparr>
       | None \<Rightarrow>
           \<lparr>lines = lines st, current_line = current_line st @ ascii '' '' @ word,
             last_y = Some y\<rparr>))"

fun md_loop :: "md_state \<Rightarrow> word_info list \<Rightarrow> md_state" where
  "md_loop st [] = st"
| "md_loop st (wi # ws) = md_loop (md_step st wi) ws"

definition md_init :: md_state where
  "md_init = \<lparr>lines = [], current_line = [], last_y = None\<rparr>"

text \<open>The list \<^verbatim>\<open>lines\<close> as it stands when the function joins it.\<close>

definition markdown_lines :: "word_info list \<Rightarrow> pystr list" where
  "markdown_lines ws = (let st = md_loop md_init ws in flush (lines st) (current_line st))"

definition convert_to_markdown :: "ocr_result \<Rightarrow> pystr" where
  "convert_to_markdown r =
     (case words_result r of
        None \<Rightarrow> []
      | Some ws \<Rightarrow> join [10] (markdown_lines ws))"

section \<open>Tables: \<^verbatim>\<open>BaiduOCRClient.convert_table_to_markdown\<close>\<close>

text \<open>The entries of \<^verbatim>\<open>form_result\<close> that have a \<^verbatim>\<open>'row'\<close>, in order.\<close>

fun table_data :: "form_entry list \<Rightarrow> pystr list list" where
  "table_data [] = []"
| "table_data (e # es) =
     (case row e of None \<Rightarrow> table_data es | Some cells \<Rightarrow> cells # table_data es)"

text \<open>\<^verbatim>\<open>'| ' + ' | '.join(cells) + ' |'\<close>.\<close>

definition pipe_row :: "pystr list \<Rightarrow> pystr" where
  "pipe_row cells = ascii ''| '' @ join (ascii '' | '') cells @ ascii '' |''"

text \<open>
  The list \<^verbatim>\<open>md_lines\<close>: header and separator from the first row, then one line for
  each row of \<^verbatim>\<open>table_data[1:]\<close>.
\<close>

definition md_lines :: "pystr list list \<Rightarrow> pystr list" where
  "md_lines td =
     (case td of
        [] \<Rightarrow> []
      | headers # _ \<Rightarrow>
          [pipe_row headers, pipe_row (replicate (length headers) (ascii ''---''))])
     @ map pipe_row (tl td)"

definition convert_table_to_markdown :: "ocr_result \<Rightarrow> pystr" where
  "convert_table_to_markdown r =
     (case form_result r of
        None \<Rightarrow> convert_to_markdown r
      | Some fr \<Rightarrow>
          if fr = [] then []
          else (let td = table_data fr in
                if td = [] then [] else join [10] (md_lines td)))"

section \<open>Double-precision numbers\<close>

text \<open>
  \<^verbatim>\<open>time.time()\<close> returns a double, and the expiry of the token is computed with
  Python's \<^verbatim>\<open>float\<close> arithmetic, which rounds every result to the nearest double
  (ties to the even mantissa) and gives an infinity when the rounded result leaves the
  range. A finite double is the real number it stands for.
\<close>

datatype pyfloat = Finite real | PosInf | NegInf

text \<open>The number of binary digits of a positive \<open>n\<close>.\<close>

function bit_length :: "int \<Rightarrow> nat" where
  "bit_length n = (if n \<le> 0 then 0 else Suc (bit_length (n div 2)))"
  by pat_completeness auto
termination
  by (relation "measure nat") auto

declare bit_length.simps [simp del]

definition pow2 :: "int \<Rightarrow> real" where
  "pow2 k = (if 0 \<le> k then 2 ^ nat k else 1 / 2 ^ nat (- k))"

text \<open>The exponent \<open>e\<close> with \<open>2 ^ e \<le> \<bar>x\<bar> < 2 ^ (e + 1)\<close>, for \<open>x\<close> other than 0.\<close>

definition binary_exponent :: "real \<Rightarrow> int" where
  "binary_exponent x =
     (if 1 \<le> \<bar>x\<bar> then int (bit_length \<lfloor>\<bar>x\<bar>\<rfloor>) - 1
      else - int (bit_length (\<lceil>1 / \<bar>x\<bar>\<rceil> - 1)))"

text \<open>The nearest integer, the even one of two that are equally near.\<close>

definition round_even :: "real \<Rightarrow> int" where
  "round_even z =
     (if z - of_int \<lfloor>z\<rfloor> < 1 / 2 then \<lfloor>z\<rfloor>
      else if 1 / 2 < z - of_int \<lfloor>z\<rfloor> then \<lfloor>z\<rfloor> + 1
      else if even \<lfloor>z\<rfloor> then \<lfloor>z\<rfloor> else \<lfloor>z\<rfloor> + 1)"

text \<open>
  Rounding a real number to a double: the mantissa has 53 binary digits, so the doubles
  near \<open>x\<close> are the multiples of \<open>2 ^ (e - 52)\<close>, and of \<open>2 ^ - 1074\<close> below the
  normal range; a result of magnitude \<open>2 ^ 1024\<close> is infinite.
\<close>

definition round_double :: "real \<Rightarrow> pyfloat" where
  "round_double x =
     (if x = 0 then Finite 0
      else
        (let k = max (binary_exponent x - 52) (- 1074);
             r = of_int (round_even (x / pow2 k)) * pow2 k
         in if 2 ^ 1024 \<le> r then PosInf
            else if r \<le> - (2 ^ 1024) then NegInf
            else Finite r))"

text \<open>
  An \<^verbatim>\<open>int\<close> operand of a \<^verbatim>\<open>float\<close> operation is converted first; the conversion
  rounds, and raises \<^verbatim>\<open>OverflowError\<close> (here \<open>None\<close>) instead of giving an
  infinity.
\<close>

definition float_of_int :: "int \<Rightarrow> real option" where
  "float_of_int n = (case round_double (of_int n) of Finite r \<Rightarrow> Some r | _ \<Rightarrow> None)"

text \<open>\<^verbatim>\<open>x + y\<close> for two finite doubles, \<^verbatim>\<open>x - y\<close> for a double and a finite one.\<close>

definition float_add :: "real \<Rightarrow> real \<Rightarrow> pyfloat" where
  "float_add x y = round_double (x + y)"

definition float_sub :: "pyfloat \<Rightarrow> real \<Rightarrow> pyfloat" where
  "float_sub x y =
     (case x of Finite a \<Rightarrow> round_double (a - y) | PosInf \<Rightarrow> PosInf | NegInf \<Rightarrow> NegInf)"

text \<open>\<^verbatim>\<open>t > x\<close> for a finite double \<open>t\<close>.\<close>

definition float_gt :: "real \<Rightarrow> pyfloat \<Rightarrow> bool" where
  "float_gt t x = (case x of Finite a \<Rightarrow> a < t | PosInf \<Rightarrow> False | NegInf \<Rightarrow> True)"

section \<open>The client: \<^verbatim>\<open>BaiduOCRClient\<close>\<close>

text \<open>
  The token endpoint answers with a dictionary that may hold \<^verbatim>\<open>'access_token'\<close> and
  \<^verbatim>\<open>'expires_in'\<close> (seconds).
\<close>

record token_response =
  tok_access_token :: "pystr option"
  tok_expires_in :: "int option"

text \<open>
  The exceptions that reach \<^verbatim>\<open>process_single_image\<close>: the two that the client raises
  itself (no token in the endpoint's answer; an \<^verbatim>\<open>error_code\<close> in the service's
  answer, with its \<^verbatim>\<open>error_msg\<close>) and those raised by the libraries underneath
  (network, JSON decoding, file access, arithmetic).
\<close>

datatype exn =
    TokenError token_response
  | ApiError pystr
  | LibraryError pystr

text \<open>
  The requests the client sends with \<^verbatim>\<open>requests.post\<close>: to the token endpoint, and to a
  recognition endpoint with the access token that the URL carries.
\<close>

datatype post = TokenPost | ApiPost pystr "pystr option"

text \<open>
  The client object. \<^verbatim>\<open>access_token\<close> is \<^verbatim>\<open>None\<close> until a token has been
  stored; \<^verbatim>\<open>token_expires\<close> is a timestamp in seconds.
\<close>

record ocr_client =
  api_key :: pystr
  secret_key :: pystr
  app_id :: "pystr option"
  access_token :: "pystr option"
  token_expires :: pyfloat

text \<open>
  \<^verbatim>\<open>_get_access_token\<close> when the clock reads \<open>t\<close>, given what the token endpoint
  does (\<open>Inl\<close>: the request or the decoding raises). The result is the requests sent,
  the exception raised if any (the handler prints it and raises it again), and the client
  afterwards. The token is stored before the expiry is computed as
  \<^verbatim>\<open>time.time() + result.get('expires_in', 3600) - 300\<close>, so a lifetime too large for a
  \<^verbatim>\<open>float\<close> raises with the new token already in place.
\<close>

definition get_access_token ::
  "ocr_client \<Rightarrow> real \<Rightarrow> exn + token_response \<Rightarrow> post list \<times> exn option \<times> ocr_client" where
  "get_access_token c t reply =
     ([TokenPost],
      (case reply of
         Inl x \<Rightarrow> (Some x, c)
       | Inr result \<Rightarrow>
           (case tok_access_token result of
              Some tok \<Rightarrow>
                (case float_of_int (case tok_expires_in result of None \<Rightarrow> 3600 | Some s \<Rightarrow> s) of
                   None \<Rightarrow>
                     (Some (LibraryError (ascii ''int too large to convert to float'')),
                      c\<lparr>access_token := Some tok\<rparr>)
                 | Some lifetime \<Rightarrow>
                     (None,
                      c\<lparr>access_token := Some tok,
                        token_expires := float_sub (float_add t lifetime) 300\<rparr>))
            | None \<Rightarrow> (Some (TokenError result), c))))"

text \<open>
  \<^verbatim>\<open>BaiduOCRClient.__init__\<close>: the fields are set, then the token is requested. An
  exception leaves no client.
\<close>

definition client_init ::
  "pystr \<Rightarrow> pystr \<Rightarrow> pystr option \<Rightarrow> real \<Rightarrow> exn + token_response
     \<Rightarrow> post list \<times> (exn + ocr_client)" where
  "client_init ak sk aid t reply =
     (case get_access_token
             \<lparr>api_key = ak, secret_key = sk, app_id = aid, access_token = None,
              token_expires = Finite 0\<rparr> t reply of
        (posts, Some x, c) \<Rightarrow> (posts, Inl x)
      | (posts, None, c) \<Rightarrow> (posts, Inr c))"

text \<open>
  \<^verbatim>\<open>_ensure_token_valid\<close>: \<^verbatim>\<open>not self.access_token\<close> holds for \<^verbatim>\<open>None\<close> and for
  the empty string. \<open>t_check\<close> is the clock reading of the test, \<open>t_grant\<close> the
  later one inside \<^verbatim>\<open>_get_access_token\<close>.
\<close>

definition ensure_token_valid ::
  "ocr_client \<Rightarrow> real \<Rightarrow> real \<Rightarrow> exn + token_response \<Rightarrow> post list \<times> exn option \<times> ocr_client" where
  "ensure_token_valid c t_check t_grant reply =
     (if access_token c = None \<or> access_token c = Some [] \<or> float_gt t_check (token_expires c)
      then get_access_token c t_grant reply
      else ([], None, c))"

text \<open>
  What the outside world does during one call of \<^verbatim>\<open>process_single_image\<close>: the two
  clock readings, the token endpoint's answer, the content of the image file, the
  service's answer at each endpoint, whether writing a file fails, and the formatted
  local time.
\<close>

record env =
  check_time :: real
  grant_time :: real
  token_reply :: "exn + token_response"
  image_bytes :: "pystr \<Rightarrow> exn + nat list"
  api_reply :: "pystr \<Rightarrow> exn + ocr_result"
  write_error :: "pystr \<Rightarrow> exn option"
  timestamp :: pystr

text \<open>
  \<^verbatim>\<open>_make_request\<close>: the token is checked first, then the image is posted to the
  endpoint with the client's token in the URL; an answer with an \<^verbatim>\<open>error_code\<close>
  raises with \<^verbatim>\<open>result.get('error_msg', 'Unknown error')\<close>. The result is the requests
  sent in order, the answer or the exception, and the client afterwards.
\<close>

definition make_request ::
  "ocr_client \<Rightarrow> env \<Rightarrow> pystr \<Rightarrow> post list \<times> (exn + ocr_result) \<times> ocr_client" where
  "make_request c e endpoint =
     (case ensure_token_valid c (check_time e) (grant_time e) (token_reply e) of
        (posts, Some x, c') \<Rightarrow> (posts, Inl x, c')
      | (posts, None, c') \<Rightarrow>
          (posts @ [ApiPost endpoint (access_token c')],
           (case api_reply e endpoint of
              Inl x \<Rightarrow> Inl x
            | Inr result \<Rightarrow>
                if error_code result \<noteq> None
                then Inl (ApiError (case error_msg result of
                                      None \<Rightarrow> ascii ''Unknown error'' | Some m \<Rightarrow> m))
                else Inr result),
           c'))"

text \<open>
  The four recognition methods read the image file and post it to their endpoint. The
  extra request parameters travel with the image and do not change what the client does
  with the answer. (\<^verbatim>\<open>accurate_text_ocr\<close> is documented as the high-precision
  recognition; the endpoint it names is \<^verbatim>\<open>general_basic\<close>.)
\<close>

definition ocr_request ::
  "ocr_client \<Rightarrow> env \<Rightarrow> pystr \<Rightarrow> pystr \<Rightarrow> post list \<times> (exn + ocr_result) \<times> ocr_client" where
  "ocr_request c e image_path endpoint =
     (case image_bytes e image_path of
        Inl x \<Rightarrow> ([], Inl x, c)
      | Inr image_data \<Rightarrow> make_request c e endpoint)"

definition general_text_ocr ::
  "ocr_client \<Rightarrow> env \<Rightarrow> pystr \<Rightarrow> post list \<times> (exn + ocr_result) \<times> ocr_client" where
  "general_text_ocr c e image_path = ocr_request c e image_path (ascii ''general'')"

definition accurate_text_ocr ::
  "ocr_client \<Rightarrow> env \<Rightarrow> pystr \<Rightarrow> post list \<times> (exn + ocr_result) \<times> ocr_client" where
  "accurate_text_ocr c e image_path = ocr_request c e image_path (ascii ''general_basic'')"

definition table_ocr ::
  "ocr_client \<Rightarrow> env \<Rightarrow> pystr \<Rightarrow> post list \<times> (exn + ocr_result) \<times> ocr_client" where
  "table_ocr c e image_path = ocr_request c e image_path (ascii ''form'')"

definition handwriting_ocr ::
  "ocr_client \<Rightarrow> env \<Rightarrow> pystr \<Rightarrow> post list \<times> (exn + ocr_result) \<times> ocr_client" where
  "handwriting_ocr c e image_path = ocr_request c e image_path (ascii ''handwriting'')"

section \<open>One image: \<^verbatim>\<open>BaiduOCRProcessor\<close>\<close>

record ocr_processor =
  client :: ocr_client
  processed_count :: nat
  success_count :: nat
  failed_count :: nat

text \<open>\<^verbatim>\<open>BaiduOCRProcessor.__init__\<close>: building the client may raise.\<close>

definition processor_init ::
  "pystr \<Rightarrow> pystr \<Rightarrow> real \<Rightarrow> exn + token_response \<Rightarrow> exn + ocr_processor" where
  "processor_init ak sk t reply =
     (case snd (client_init ak sk None t reply) of
        Inl x \<Rightarrow> Inl x
      | Inr c \<Rightarrow> Inr \<lparr>client = c, processed_count = 0, success_count = 0, failed_count = 0\<rparr>)"

text \<open>The files written so far: path to content.\<close>

type_synonym files = "pystr \<rightharpoonup> pystr"

text \<open>
  The header put before the content: title, recognition time, engine and mode, rule.
  The non-ASCII characters of the source are given by their code points.
\<close>

definition header :: "pystr \<Rightarrow> pystr \<Rightarrow> pystr" where
  "header ts ocr_type =
     [35, 32, 79, 67, 82, 35782, 21035, 32467, 26524, 10, 10]
     @ [42, 79, 67, 82, 35782, 21035, 26102, 38388, 58, 32] @ ts @ [42, 10, 10]
     @ [42, 79, 67, 82, 24341, 25806, 58, 32, 30334, 24230] @ ascii ''AI Studio ('' @ ocr_type
       @ ascii '')*'' @ [10, 10]
     @ ascii ''---'' @ [10, 10]"

text \<open>
  The body of the \<^verbatim>\<open>try\<close> up to the conversion: the recognition method chosen by
  \<^verbatim>\<open>ocr_type\<close> and the conversion of its answer.
\<close>

definition recognise ::
  "ocr_client \<Rightarrow> env \<Rightarrow> pystr \<Rightarrow> pystr \<Rightarrow> (exn + pystr) \<times> ocr_client" where
  "recognise c e image_path ocr_type =
     (if ocr_type = ascii ''table'' then
        (case table_ocr c e image_path of
           (posts, Inl x, c') \<Rightarrow> (Inl x, c')
         | (posts, Inr result, c') \<Rightarrow> (Inr (convert_table_to_markdown result), c'))
      else if ocr_type = ascii ''handwriting'' then
        (case handwriting_ocr c e image_path of
           (posts, Inl x, c') \<Rightarrow> (Inl x, c')
         | (posts, Inr result, c') \<Rightarrow> (Inr (convert_to_markdown result), c'))
      else if ocr_type = ascii ''accurate'' then
        (case accurate_text_ocr c e image_path of
           (posts, Inl x, c') \<Rightarrow> (Inl x, c')
         | (posts, Inr result, c') \<Rightarrow> (Inr (convert_to_markdown result), c'))
      else
        (case general_text_ocr c e image_path of
           (posts, Inl x, c') \<Rightarrow> (Inl x, c')
         | (posts, Inr result, c') \<Rightarrow> (Inr (convert_to_markdown result), c')))"

text \<open>
  \<^verbatim>\<open>process_single_image\<close>. Every exception of the body is caught and counted as a
  failure; the \<^verbatim>\<open>finally\<close> clause counts the call on every path. The result is the
  returned flag, the processor and the files afterwards. Writing the artifact either
  stores the whole text or raises and leaves the files as they were.
\<close>

definition process_single_image ::
  "ocr_processor \<Rightarrow> files \<Rightarrow> env \<Rightarrow> pystr \<Rightarrow> pystr \<Rightarrow> pystr \<Rightarrow> bool \<times> ocr_processor \<times> files" where
  "process_single_image p fs e image_path output_path ocr_type =
     (let (res, c') = recognise (client p) e image_path ocr_type;
          p1 = p\<lparr>client := c'\<rparr>;
          (ok, p2, fs') =
            (case res of
               Inl x \<Rightarrow> (False, p1\<lparr>failed_count := failed_count p1 + 1\<rparr>, fs)
             | Inr content \<Rightarrow>
                 if strip content \<noteq> [] then
                   (case write_error e output_path of
                      Some x \<Rightarrow> (False, p1\<lparr>failed_count := failed_count p1 + 1\<rparr>, fs)
                    | None \<Rightarrow>
                        (True, p1\<lparr>success_count := success_count p1 + 1\<rparr>,
                         fs(output_path \<mapsto> header (timestamp e) ocr_type @ content)))
                 else (False, p1\<lparr>failed_count := failed_count p1 + 1\<rparr>, fs))
      in (ok, p2\<lparr>processed_count := processed_count p2 + 1\<rparr>, fs'))"

text \<open>A run of calls on one processor, for the invariant of its counters.\<close>

fun process_images ::
  "ocr_processor \<Rightarrow> files \<Rightarrow> (env \<times> pystr \<times> pystr \<times> pystr) list \<Rightarrow> ocr_processor \<times> files" where
  "process_images p fs [] = (p, fs)"
| "process_images p fs ((e, image_path, output_path, ocr_type) # calls) =
     (case process_single_image p fs e image_path output_path ocr_type of
        (ok, p', fs') \<Rightarrow> process_images p' fs' calls)"

section \<open>Retrying one image: \<^verbatim>\<open>RetryFailedFiles.process_with_retry\<close>\<close>

text \<open>
  The dictionary that \<^verbatim>\<open>process_with_retry\<close> returns. The elapsed time stored under
  \<^verbatim>\<open>'processing_time'\<close> is a wall-clock measurement and is left out.
\<close>

record retry_outcome =
  success :: bool
  image_file :: pystr
  output_file :: pystr
  char_count :: nat
  word_count :: nat
  error :: "pystr option"
  retries :: nat

text \<open>
  The \<^verbatim>\<open>RetryFailedFiles\<close> object (its processor and its \<^verbatim>\<open>stats\<close>) together with
  what the method changes outside it: the files written and the arguments of
  \<^verbatim>\<open>time.sleep\<close>, in order.
\<close>

record retry_state =
  processor :: ocr_processor
  written :: files
  stats_total_processed :: nat
  stats_success_count :: nat
  stats_failed_count :: nat
  slept :: "nat list"

text \<open>The error text of a failed outcome, by code points.\<close>

definition failed_msg :: pystr where
  "failed_msg = [30334, 24230, 79, 67, 82, 22788, 29702, 22833, 36133]"

text \<open>
  \<^verbatim>\<open>'qps request limit reached' in error_msg.lower()\<close>. \<open>lower\<close> maps the ASCII
  capitals; the handler does the same whether the test holds or not.
\<close>

definition lower :: "pystr \<Rightarrow> pystr" where
  "lower s = map (\<lambda>c. if 65 \<le> c \<and> c \<le> 90 then c + 32 else c) s"

fun is_prefix :: "pystr \<Rightarrow> pystr \<Rightarrow> bool" where
  "is_prefix [] ys = True"
| "is_prefix (x # xs) [] = False"
| "is_prefix (x # xs) (y # ys) = (x = y \<and> is_prefix xs ys)"

fun contains :: "pystr \<Rightarrow> pystr \<Rightarrow> bool" where
  "contains xs [] = (xs = [])"
| "contains xs (y # ys) = (is_prefix xs (y # ys) \<or> contains xs ys)"

definition qps_limited :: "pystr \<Rightarrow> bool" where
  "qps_limited msg = contains (ascii ''qps request limit reached'') (lower msg)"

text \<open>
  The call made at each attempt, seen from the loop: it returns a flag or raises (\<open>Inl\<close>
  holds \<^verbatim>\<open>str(e)\<close>), and may change the processor and the files.
\<close>

type_synonym image_call = "ocr_processor \<Rightarrow> files \<Rightarrow> (pystr + bool) \<times> ocr_processor \<times> files"

text \<open>\<^verbatim>\<open>len(content)\<close> and \<^verbatim>\<open>len(content.split())\<close> of the file read back, 0 and 0 if
  reading fails.\<close>

definition read_counts :: "files \<Rightarrow> pystr \<Rightarrow> nat \<times> nat" where
  "read_counts fs path =
     (case fs path of
        Some content \<Rightarrow> (length content, length (split content))
      | None \<Rightarrow> (0, 0))"

text \<open>
  The loop \<^verbatim>\<open>for attempt in range(max_retries)\<close> from the iteration \<open>attempt\<close> on.
  Before every attempt but the first it sleeps \<^verbatim>\<open>2 ** attempt\<close> seconds. The loop
  returns at the first success and at the last attempt; if the range is empty the method
  falls off its end and returns \<^verbatim>\<open>None\<close>.
\<close>

function retry_loop ::
  "(nat \<Rightarrow> image_call) \<Rightarrow> int \<Rightarrow> pystr \<Rightarrow> pystr \<Rightarrow> nat \<Rightarrow> retry_state
     \<Rightarrow> retry_outcome option \<times> retry_state" where
  "retry_loop call max_retries img out attempt s =
     (if int attempt < max_retries then
        (let s1 = (if attempt > 0 then s\<lparr>slept := slept s @ [2 ^ attempt]\<rparr> else s);
             r = call attempt (processor s1) (written s1);
             s2 = s1\<lparr>processor := fst (snd r), written := snd (snd r)\<rparr>
         in case fst r of
              Inr True \<Rightarrow>
                (Some \<lparr>success = True, image_file = img, output_file = out,
                       char_count = fst (read_counts (written s2) out),
                       word_count = snd (read_counts (written s2) out),
                       error = None, retries = attempt\<rparr>,
                 s2\<lparr>stats_success_count := stats_success_count s2 + 1\<rparr>)
            | Inr False \<Rightarrow>
                if int attempt < max_retries - 1
                then retry_loop call max_retries img out (Suc attempt) s2
                else (Some \<lparr>success = False, image_file = img, output_file = out,
                            char_count = 0, word_count = 0,
                            error = Some failed_msg, retries = attempt\<rparr>,
                      s2\<lparr>stats_failed_count := stats_failed_count s2 + 1\<rparr>)
            | Inl msg \<Rightarrow>
                if qps_limited msg \<and> int attempt < max_retries - 1
                then retry_loop call max_retries img out (Suc attempt) s2
                else if int attempt < max_retries - 1
                then retry_loop call max_retries img out (Suc attempt) s2
                else (Some \<lparr>success = False, image_file = img, output_file = out,
                            char_count = 0, word_count = 0,
                            error = Some msg, retries = attempt\<rparr>,
                      s2\<lparr>stats_failed_count := stats_failed_count s2 + 1\<rparr>))
      else (None, s))"
  by pat_completeness auto
termination
  by (relation "measure (\<lambda>(call, max_retries, img, out, attempt, s). nat (max_retries - int attempt))")
    auto

declare retry_loop.simps [simp del]

text \<open>\<^verbatim>\<open>process_with_retry\<close> around any call.\<close>

definition process_with_retry_calling ::
  "(nat \<Rightarrow> image_call) \<Rightarrow> int \<Rightarrow> pystr \<Rightarrow> pystr \<Rightarrow> retry_state
     \<Rightarrow> retry_outcome option \<times> retry_state" where
  "process_with_retry_calling call max_retries img out s = retry_loop call max_retries img out 0 s"

text \<open>
  The call the source makes: \<^verbatim>\<open>process_single_image\<close> in the mode
  \<^verbatim>\<open>'accurate'\<close>, which returns a flag on every path.
\<close>

definition single_image_call :: "env \<Rightarrow> pystr \<Rightarrow> pystr \<Rightarrow> image_call" where
  "single_image_call e img out p fs =
     (case process_single_image p fs e img out (ascii ''accurate'') of
        (ok, p', fs') \<Rightarrow> (Inr ok, p', fs'))"

text \<open>\<^verbatim>\<open>process_with_retry\<close>, where \<open>envs k\<close> is the outside world during attempt \<open>k\<close>.\<close>

definition process_with_retry ::
  "(nat \<Rightarrow> env) \<Rightarrow> int \<Rightarrow> pystr \<Rightarrow> pystr \<Rightarrow> retry_state \<Rightarrow> retry_outcome option \<times> retry_state" where
  "process_with_retry envs max_retries img out s =
     process_with_retry_calling (\<lambda>k. single_image_call (envs k) img out) max_retries img out s"

text \<open>
  Three views of one iteration, used to state what the loop does: the state after the
  sleep, the state after the call, and what the call returned.
\<close>

definition before_call :: "nat \<Rightarrow> retry_state \<Rightarrow> retry_state" where
  "before_call attempt s = (if attempt > 0 then s\<lparr>slept := slept s @ [2 ^ attempt]\<rparr> else s)"

definition after_call :: "(nat \<Rightarrow> image_call) \<Rightarrow> nat \<Rightarrow> retry_state \<Rightarrow> retry_state" where
  "after_call call attempt s =
     (let s1 = before_call attempt s; r = call attempt (processor s1) (written s1)
      in s1\<lparr>processor := fst (snd r), written := snd (snd r)\<rparr>)"

definition call_result :: "(nat \<Rightarrow> image_call) \<Rightarrow> nat \<Rightarrow> retry_state \<Rightarrow> pystr + bool" where
  "call_result call attempt s = fst (call attempt (processor s) (written s))"

section \<open>The batch: \<^verbatim>\<open>BaiduOCRBatchProcessor\<close>\<close>

text \<open>
  \<^verbatim>\<open>ext.upper()\<close>, applied in the source to the five extension literals only, so the
  ASCII letters suffice.
\<close>

definition upper :: "pystr \<Rightarrow> pystr" where
  "upper s = map (\<lambda>c. if 97 \<le> c \<and> c \<le> 122 then c - 32 else c) s"

definition image_extensions :: "pystr list" where
  "image_extensions = map ascii [''.jpg'', ''.jpeg'', ''.png'', ''.bmp'', ''.tiff'']"

definition ends_with :: "pystr \<Rightarrow> pystr \<Rightarrow> bool" where
  "ends_with name suffix \<longleftrightarrow>
     length suffix \<le> length name \<and> drop (length name - length suffix) name = suffix"

text \<open>
  A path is the string of the directory, a slash and the name. (\<^verbatim>\<open>pathlib\<close> also
  normalises the directory part, in the same way for every file of one directory.)
\<close>

definition path_join :: "pystr \<Rightarrow> pystr \<Rightarrow> pystr" where
  "path_join directory name = directory @ ascii ''/'' @ name"

text \<open>
  \<^verbatim>\<open>path.glob(f"*{ext}")\<close> over a directory whose entries have the names
  \<open>entries\<close>: the entries whose name ends with \<open>ext\<close>, compared exactly (the
  matching of a POSIX path). A directory that does not exist has no entries.
\<close>

definition glob_suffix :: "pystr \<Rightarrow> pystr list \<Rightarrow> pystr \<Rightarrow> pystr list" where
  "glob_suffix directory entries ext =
     map (path_join directory) (filter (\<lambda>name. ends_with name ext) entries)"

text \<open>\<^verbatim>\<open>get_image_files\<close>: both spellings of each extension, then sorted.\<close>

definition get_image_files :: "pystr \<Rightarrow> pystr list \<Rightarrow> pystr list" where
  "get_image_files directory entries =
     sort (concat (map (\<lambda>ext. glob_suffix directory entries ext
                              @ glob_suffix directory entries (upper ext))
                       image_extensions))"

text \<open>\<^verbatim>\<open>Path(p).name\<close>: what follows the last slash.\<close>

definition path_name :: "pystr \<Rightarrow> pystr" where
  "path_name p = rev (takeWhile (\<lambda>c. c \<noteq> 47) (rev p))"

text \<open>
  \<^verbatim>\<open>Path(p).stem\<close> of a name: with \<open>i\<close> the index of the last dot, the name up to
  \<open>i\<close> if \<open>0 < i < len(name) - 1\<close>, else the whole name. \<open>ext\<close> is what follows
  the last dot.
\<close>

definition stem :: "pystr \<Rightarrow> pystr" where
  "stem name =
     (let ext = rev (takeWhile (\<lambda>c. c \<noteq> 46) (rev name)) in
      if length ext < length name \<and> 0 < length name - length ext - 1 \<and> ext \<noteq> []
      then take (length name - length ext - 1) name
      else name)"

text \<open>
  \<^verbatim>\<open>Path(output_dir) / f"{Path(image_file).stem}_baidu.md"\<close>, the name that both
  \<^verbatim>\<open>BaiduOCRBatchProcessor.process_batch\<close> and \<^verbatim>\<open>BaiduOCRProcessor.process_batch\<close>
  give to the artifact of an image.
\<close>

definition artifact_path :: "pystr \<Rightarrow> pystr \<Rightarrow> pystr" where
  "artifact_path output_dir image_path =
     path_join output_dir (stem (path_name image_path) @ ascii ''_baidu.md'')"

definition output_files :: "pystr \<Rightarrow> pystr list \<Rightarrow> pystr list" where
  "output_files output_dir image_files = map (artifact_path output_dir) image_files"

text \<open>The batch processor's own counters, beside those of the processor it drives.\<close>

record batch_processor =
  bp_processor :: ocr_processor
  bp_processed_count :: nat
  bp_success_count :: nat
  bp_failed_count :: nat

text \<open>The dictionary of one task, without its elapsed time.\<close>

record task_outcome =
  task_success :: bool
  task_image_file :: pystr
  task_output_file :: pystr
  task_char_count :: nat
  task_word_count :: nat
  task_error :: "pystr option"

text \<open>\<^verbatim>\<open>process_single_image_safe\<close> around a call that returns a flag or raises.\<close>

definition process_single_image_safe ::
  "image_call \<Rightarrow> batch_processor \<Rightarrow> files \<Rightarrow> pystr \<Rightarrow> pystr
     \<Rightarrow> task_outcome \<times> batch_processor \<times> files" where
  "process_single_image_safe call bp fs img out =
     (let r = call (bp_processor bp) fs;
          bp1 = bp\<lparr>bp_processor := fst (snd r)\<rparr>;
          fs' = snd (snd r)
      in case fst r of
           Inr True \<Rightarrow>
             (\<lparr>task_success = True, task_image_file = img, task_output_file = out,
               task_char_count = fst (read_counts fs' out),
               task_word_count = snd (read_counts fs' out), task_error = None\<rparr>,
              bp1\<lparr>bp_success_count := bp_success_count bp1 + 1\<rparr>, fs')
         | Inr False \<Rightarrow>
             (\<lparr>task_success = False, task_image_file = img, task_output_file = out,
               task_char_count = 0, task_word_count = 0, task_error = Some failed_msg\<rparr>,
              bp1\<lparr>bp_failed_count := bp_failed_count bp1 + 1\<rparr>, fs')
         | Inl msg \<Rightarrow>
             (\<lparr>task_success = False, task_image_file = img, task_output_file = out,
               task_char_count = 0, task_word_count = 0, task_error = Some msg\<rparr>,
              bp1\<lparr>bp_failed_count := bp_failed_count bp1 + 1\<rparr>, fs'))"

text \<open>
  The tasks of one batch. The source hands them to a pool of worker threads; here they
  run one after another in the order of submission, and each result is counted when it
  is collected.
\<close>

fun run_tasks ::
  "(pystr \<Rightarrow> env) \<Rightarrow> batch_processor \<Rightarrow> files \<Rightarrow> (pystr \<times> pystr) list
     \<Rightarrow> task_outcome list \<times> batch_processor \<times> files" where
  "run_tasks envs bp fs [] = ([], bp, fs)"
| "run_tasks envs bp fs ((img, out) # tasks) =
     (case process_single_image_safe (single_image_call (envs img) img out) bp fs img out of
        (res, bp1, fs1) \<Rightarrow>
          (case run_tasks envs (bp1\<lparr>bp_processed_count := bp_processed_count bp1 + 1\<rparr>) fs1 tasks of
             (rest, bp2, fs2) \<Rightarrow> (res # rest, bp2, fs2)))"

text \<open>
  What \<^verbatim>\<open>process_batch\<close> returns: the dictionary with \<^verbatim>\<open>'success': False\<close> and a
  message when no image was found, or the final statistics (without the timings).
\<close>

record final_stats =
  total_files :: nat
  processed_files :: nat
  final_success_count :: nat
  final_failed_count :: nat
  success_rate :: real
  results :: "task_outcome list"

datatype batch_result = NoImages pystr | FinalStats final_stats

text \<open>The message of the first, by code points.\<close>

definition no_images_msg :: pystr where
  "no_images_msg = [26410, 25214, 21040, 22270, 29255, 25991, 20214]"

text \<open>
  \<^verbatim>\<open>process_batch\<close> over a directory with the entries \<open>entries\<close>. Creating the
  output directory may raise, and so does a pool of no workers; both come after the test
  for an empty list of images.
\<close>

definition process_batch ::
  "batch_processor \<Rightarrow> files \<Rightarrow> pystr list \<Rightarrow> exn option \<Rightarrow> (pystr \<Rightarrow> env) \<Rightarrow> pystr \<Rightarrow> pystr \<Rightarrow> int
     \<Rightarrow> exn + batch_result \<times> batch_processor \<times> files" where
  "process_batch bp fs entries mkdir_error envs image_dir output_dir max_workers =
     (let image_files = get_image_files image_dir entries in
      if image_files = [] then Inr (NoImages no_images_msg, bp, fs)
      else
        (case mkdir_error of
           Some x \<Rightarrow> Inl x
         | None \<Rightarrow>
             if max_workers \<le> 0 then Inl (LibraryError (ascii ''max_workers must be greater than 0''))
             else
               (case run_tasks envs bp fs (zip image_files (output_files output_dir image_files)) of
                  (res, bp', fs') \<Rightarrow>
                    Inr (FinalStats
                           \<lparr>total_files = length image_files,
                            processed_files = bp_processed_count bp',
                            final_success_count = bp_success_count bp',
                            final_failed_count = bp_failed_count bp',
                            success_rate =
                              real (bp_success_count bp') / real (length image_files) * 100,
                            results = res\<rparr>,
                         bp', fs'))))"

section \<open>Sample inputs\<close>

text \<open>A word with its text and vertical position; a table entry with a row of ASCII cells.\<close>

definition word_at :: "string \<Rightarrow> int \<Rightarrow> word_info" where
  "word_at s t =
     \<lparr>words = Some (ascii s),
      location = Some \<lparr>loc_top = Some t, loc_left = None, loc_width = None, loc_height = None\<rparr>\<rparr>"

definition row_of :: "string list \<Rightarrow> form_entry" where
  "row_of cells = \<lparr>row = Some (map ascii cells)\<rparr>"

text \<open>
  A client holding a token valid until 3300, a fresh processor around it, and a world at
  time 100 in which the token endpoint grants a token, the image can be read, files can be
  written and the service gives a fixed answer.
\<close>

definition sample_client :: ocr_client where
  "sample_client =
     \<lparr>api_key = ascii ''key'', secret_key = ascii ''secret'', app_id = None,
      access_token = Some (ascii ''T''), token_expires = Finite 3300\<rparr>"

definition sample_processor :: ocr_processor where
  "sample_processor =
     \<lparr>client = sample_client, processed_count = 0, success_count = 0, failed_count = 0\<rparr>"

definition sample_env :: "exn + ocr_result \<Rightarrow> env" where
  "sample_env reply =
     \<lparr>check_time = 100, grant_time = 100,
      token_reply = Inr \<lparr>tok_access_token = Some (ascii ''T''), tok_expires_in = Some 3600\<rparr>,
      image_bytes = (\<lambda>path. Inr []), api_reply = (\<lambda>endpoint. reply),
      write_error = (\<lambda>path. None), timestamp = ascii ''2026-01-01 00:00:00''\<rparr>"

text \<open>An answer with no words, a refusal for exceeding the request rate, an answer with one word.\<close>

definition empty_answer :: ocr_result where
  "empty_answer =
     \<lparr>words_result = Some [], form_result = None, error_code = None, error_msg = None\<rparr>"

definition qps_answer :: ocr_result where
  "qps_answer =
     \<lparr>words_result = None, form_result = None, error_code = Some 18,
      error_msg = Some (ascii ''Open api qps request limit reached'')\<rparr>"

definition text_answer :: ocr_result where
  "text_answer =
     \<lparr>words_result = Some [word_at ''a'' 0], form_result = None, error_code = None,
      error_msg = None\<rparr>"

text \<open>
  A retry processor before its first file, with nothing written and nothing slept; the same
  world at every attempt; a batch processor before its first batch.
\<close>

definition sample_state :: retry_state where
  "sample_state =
     \<lparr>processor = sample_processor, written = Map.empty, stats_total_processed = 0,
      stats_success_count = 0, stats_failed_count = 0, slept = []\<rparr>"

definition every_attempt :: "env \<Rightarrow> nat \<Rightarrow> env" where
  "every_attempt e k = e"

definition sample_batch_processor :: batch_processor where
  "sample_batch_processor =
     \<lparr>bp_processor = sample_processor, bp_processed_count = 0, bp_success_count = 0,
      bp_failed_count = 0\<rparr>"

section \<open>Properties of the layout reconstruction\<close>

lemma dropWhile_all: "(\<forall>x\<in>set (dropWhile P s). P x) \<longleftrightarrow> (\<forall>x\<in>set s. P x)"
  by (induction s) auto

lemma strip_empty_iff: "strip s = [] \<longleftrightarrow> (\<forall>c\<in>set s. isspace c)"
  by (simp add: strip_def dropWhile_eq_Nil_conv dropWhile_all)

lemma flush_nonblank: "strip cur \<noteq> [] \<Longrightarrow> flush ls cur = ls @ [strip cur]"
  by (simp add: flush_def)

lemma md_loop_append: "md_loop st (ws @ vs) = md_loop (md_loop st ws) vs"
  by (induction ws arbitrary: st) auto

lemma last_y_md_step: "last_y (md_step st wi) = Some (top_of wi)"
  by (simp add: md_step_def Let_def split: option.splits)

text \<open>Once a word has been read, \<^verbatim>\<open>last_y\<close> is the position of the last word read.\<close>

lemma last_y_md_loop: "ws \<noteq> [] \<Longrightarrow> last_y (md_loop st ws) = Some (top_of (last ws))"
proof (induction ws arbitrary: st rule: rev_induct)
  case Nil
  then show ?case by simp
next
  case (snoc w ws)
  show ?case by (simp add: md_loop_append last_y_md_step)
qed

lemma md_step_Some:
  "last_y st = Some ly \<Longrightarrow>
   md_step st wi =
     (if \<bar>top_of wi - ly\<bar> > 20
      then \<lparr>lines = flush (lines st) (current_line st), current_line = word_of wi,
             last_y = Some (top_of wi)\<rparr>
      else \<lparr>lines = lines st, current_line = current_line st @ ascii '' '' @ word_of wi,
             last_y = Some (top_of wi)\<rparr>)"
  by (simp add: md_step_def Let_def)

lemma md_loop_consecutive:
  "md_loop md_init (ws @ [p, q]) =
     (let st = md_loop md_init (ws @ [p]) in
      if \<bar>top_of q - top_of p\<bar> > 20
      then \<lparr>lines = flush (lines st) (current_line st), current_line = word_of q,
             last_y = Some (top_of q)\<rparr>
      else \<lparr>lines = lines st, current_line = current_line st @ ascii '' '' @ word_of q,
             last_y = Some (top_of q)\<rparr>)"
proof -
  have ly: "last_y (md_loop md_init (ws @ [p])) = Some (top_of p)"
    using last_y_md_loop [of "ws @ [p]" md_init] by simp
  have "md_loop md_init (ws @ [p, q]) = md_step (md_loop md_init (ws @ [p])) q"
    using md_loop_append [of md_init "ws @ [p]" "[q]"] by simp
  then show ?thesis
    using md_step_Some [OF ly, of q] by (simp add: Let_def)
qed

text \<open>
  Five words at the positions 0, 5, 30, 32 and 80: the breaks fall after the second and
  after the fourth word, whatever the texts are.
\<close>

lemma markdown_lines_five:
  assumes "top_of p0 = 0" "top_of p1 = 5" "top_of p2 = 30" "top_of p3 = 32" "top_of p4 = 80"
  shows "markdown_lines [p0, p1, p2, p3, p4] =
     flush (flush (flush [] (ascii '' '' @ word_of p0 @ ascii '' '' @ word_of p1))
        (word_of p2 @ ascii '' '' @ word_of p3)) (word_of p4)"
  using assms by (simp add: markdown_lines_def md_init_def md_step_def Let_def)

lemma markdown_lines_five_nonblank:
  assumes tops: "top_of p0 = 0" "top_of p1 = 5" "top_of p2 = 30" "top_of p3 = 32" "top_of p4 = 80"
    and nb: "\<forall>p\<in>{p0, p1, p2, p3, p4}. \<exists>c\<in>set (word_of p). \<not> isspace c"
  shows "markdown_lines [p0, p1, p2, p3, p4] =
     [strip (ascii '' '' @ word_of p0 @ ascii '' '' @ word_of p1),
      strip (word_of p2 @ ascii '' '' @ word_of p3), strip (word_of p4)]"
proof -
  have a: "strip (ascii '' '' @ word_of p0 @ ascii '' '' @ word_of p1) \<noteq> []"
    using nb by (auto simp: strip_empty_iff)
  have b: "strip (word_of p2 @ ascii '' '' @ word_of p3) \<noteq> []"
    using nb by (auto simp: strip_empty_iff)
  have c: "strip (word_of p4) \<noteq> []"
    using nb by (auto simp: strip_empty_iff)
  show ?thesis
    unfolding markdown_lines_five [OF tops] by (simp add: flush_nonblank a b c)
qed

text \<open>
  Claim C3. Take any two consecutive words \<open>p\<close>, \<open>q\<close> of the word list (after any
  words \<open>ws\<close>). If their vertical positions differ by more than 20, the loop flushes the
  accumulated line (the trimmed line is appended to the lines, unless it is blank, in which
  case nothing is appended) and the new line starts with the text of \<open>q\<close>; otherwise the
  text of \<open>q\<close> is appended to the current line after one space. In particular, five
  words at the positions 0, 5, 30, 32, 80, each with some non-whitespace character, give
  exactly three lines: the first two words, the next two, and the last one.
\<close>

theorem convert_to_markdown_line_breaks:
  "md_loop md_init (ws @ [p, q]) =
     (let st = md_loop md_init (ws @ [p]) in
      if \<bar>top_of q - top_of p\<bar> > 20
      then \<lparr>lines = flush (lines st) (current_line st), current_line = word_of q,
             last_y = Some (top_of q)\<rparr>
      else \<lparr>lines = lines st, current_line = current_line st @ ascii '' '' @ word_of q,
             last_y = Some (top_of q)\<rparr>)
   \<and> (top_of p0 = 0 \<and> top_of p1 = 5 \<and> top_of p2 = 30 \<and> top_of p3 = 32 \<and> top_of p4 = 80 \<and>
        (\<forall>p\<in>{p0, p1, p2, p3, p4}. \<exists>c\<in>set (word_of p). \<not> isspace c) \<longrightarrow>
      length (markdown_lines [p0, p1, p2, p3, p4]) = 3 \<and>
      convert_to_markdown (r\<lparr>words_result := Some [p0, p1, p2, p3, p4]\<rparr>) =
        strip (ascii '' '' @ word_of p0 @ ascii '' '' @ word_of p1) @ [10] @
        strip (word_of p2 @ ascii '' '' @ word_of p3) @ [10] @ strip (word_of p4))"
  using md_loop_consecutive [of ws p q] markdown_lines_five_nonblank [of p0 p1 p2 p3 p4]
  by (simp add: convert_to_markdown_def)

text \<open>
  The words a, b, c, d, e at 0, 5, 30, 32, 80 give the three lines \<^verbatim>\<open>a b\<close>,
  \<^verbatim>\<open>c d\<close>, \<^verbatim>\<open>e\<close>; a difference of exactly 20 does not break the line.
\<close>

theorem convert_to_markdown_line_breaks_witness:
  "md_loop md_init [word_at ''a'' 0, word_at ''b'' 30] =
     \<lparr>lines = [ascii ''a''], current_line = ascii ''b'', last_y = Some 30\<rparr>
   \<and> md_loop md_init [word_at ''a'' 0, word_at ''b'' 20] =
     \<lparr>lines = [], current_line = ascii '' a b'', last_y = Some 20\<rparr>
   \<and> convert_to_markdown
       \<lparr>words_result = Some [word_at ''a'' 0, word_at ''b'' 5, word_at ''c'' 30,
                              word_at ''d'' 32, word_at ''e'' 80],
        form_result = None, error_code = None, error_msg = None\<rparr>
     = ascii ''a b'' @ [10] @ ascii ''c d'' @ [10] @ ascii ''e''"
proof -
  let ?r = "\<lparr>words_result = None, form_result = None, error_code = None, error_msg = None\<rparr>"
  have tops: "top_of (word_at s t) = t" for s t
    by (simp add: top_of_def word_at_def)
  have wo: "word_of (word_at s t) = ascii s" for s t
    by (simp add: word_of_def word_at_def)
  have sp: "isspace 32" "\<not> isspace 97" "\<not> isspace 98" "\<not> isspace 99" "\<not> isspace 100"
      "\<not> isspace 101"
    by (simp_all add: isspace_def)
  have st: "strip [32, 97] = [97]" "strip [32, 97, 32, 98] = [97, 32, 98]"
     "strip [99, 32, 100] = [99, 32, 100]" "strip [101] = [101]"
    by (simp_all add: strip_def sp)
  note g1 = convert_to_markdown_line_breaks [of "[]" "word_at ''a'' 0" "word_at ''b'' 30"
      "word_at ''a'' 0" "word_at ''b'' 5" "word_at ''c'' 30" "word_at ''d'' 32"
      "word_at ''e'' 80" ?r]
  note g2 = convert_to_markdown_line_breaks [of "[]" "word_at ''a'' 0" "word_at ''b'' 20"
      "word_at ''a'' 0" "word_at ''b'' 5" "word_at ''c'' 30" "word_at ''d'' 32"
      "word_at ''e'' 80" ?r]
  show ?thesis
    using g1 g2
    by (simp add: Let_def md_step_def md_init_def tops wo flush_def ascii_def st sp)
qed

subsection \<open>When the text is empty\<close>

lemma flush_empty_iff: "flush ls cur = [] \<longleftrightarrow> ls = [] \<and> (\<forall>c\<in>set cur. isspace c)"
  by (simp add: flush_def strip_empty_iff)

text \<open>No blank line is ever stored: every stored line has been trimmed and found non-empty.\<close>

lemma flush_no_empty_line: "[] \<notin> set ls \<Longrightarrow> [] \<notin> set (flush ls cur)"
  by (simp add: flush_def)

lemma md_step_no_empty_line: "[] \<notin> set (lines st) \<Longrightarrow> [] \<notin> set (lines (md_step st wi))"
  by (simp add: md_step_def Let_def flush_no_empty_line split: option.splits)

lemma md_loop_no_empty_line: "[] \<notin> set (lines st) \<Longrightarrow> [] \<notin> set (lines (md_loop st ws))"
  by (induction ws arbitrary: st) (simp_all add: md_step_no_empty_line)

lemma markdown_lines_no_empty_line: "[] \<notin> set (markdown_lines ws)"
  by (simp add: markdown_lines_def Let_def flush_no_empty_line md_loop_no_empty_line md_init_def)

text \<open>
  A step neither creates nor loses visible content: there is a stored line or a visible
  character in the current line afterwards exactly if there was one before or the word has one.
\<close>

lemma md_step_content:
  "lines (md_step st wi) \<noteq> [] \<or> (\<exists>c\<in>set (current_line (md_step st wi)). \<not> isspace c) \<longleftrightarrow>
   lines st \<noteq> [] \<or> (\<exists>c\<in>set (current_line st). \<not> isspace c) \<or>
   (\<exists>c\<in>set (word_of wi). \<not> isspace c)"
proof -
  have sp: "set (ascii '' '') = {32}" "isspace 32"
    by (simp_all add: ascii_def isspace_def)
  show ?thesis
    by (cases "last_y st") (auto simp: md_step_def Let_def flush_empty_iff sp)
qed

lemma md_loop_content:
  "flush (lines (md_loop st ws)) (current_line (md_loop st ws)) \<noteq> [] \<longleftrightarrow>
   lines st \<noteq> [] \<or> (\<exists>c\<in>set (current_line st). \<not> isspace c) \<or>
   (\<exists>w\<in>set ws. \<exists>c\<in>set (word_of w). \<not> isspace c)"
proof (induction ws arbitrary: st)
  case Nil
  show ?case by (simp add: flush_empty_iff)
next
  case (Cons w ws)
  show ?case
    unfolding md_loop.simps Cons.IH [of "md_step st w"]
    using md_step_content [of st w] by auto
qed

lemma markdown_lines_nonempty_iff:
  "markdown_lines ws \<noteq> [] \<longleftrightarrow> (\<exists>w\<in>set ws. \<exists>c\<in>set (word_of w). \<not> isspace c)"
  using md_loop_content [of md_init ws] by (simp add: markdown_lines_def Let_def md_init_def)

lemma join_empty_iff: "[] \<notin> set ls \<Longrightarrow> join sep ls = [] \<longleftrightarrow> ls = []"
  by (cases "(sep, ls)" rule: join.cases) auto

text \<open>
  Claim C4, as stated, fails: a word list that is not empty can give the empty string.
  The word list here holds one word whose text is a single space.
\<close>

theorem convert_to_markdown_blank_word_counterexample:
  "words_result \<lparr>words_result = Some [\<lparr>words = Some (ascii '' ''), location = None\<rparr>],
       form_result = None, error_code = None, error_msg = None\<rparr>
     = Some [\<lparr>words = Some (ascii '' ''), location = None\<rparr>]
   \<and> [\<lparr>words = Some (ascii '' ''), location = None\<rparr>] \<noteq> []
   \<and> convert_to_markdown
       \<lparr>words_result = Some [\<lparr>words = Some (ascii '' ''), location = None\<rparr>],
        form_result = None, error_code = None, error_msg = None\<rparr> = []"
  by (simp add: convert_to_markdown_def markdown_lines_def md_init_def md_step_def Let_def
      word_of_def top_of_def flush_def strip_def ascii_def isspace_def)

text \<open>
  Claim C4, amended. With no \<^verbatim>\<open>words_result\<close> or with an empty word list the result
  is the empty string. With a word list \<open>ws\<close> the result is non-empty exactly if some
  word's text has a character that is not whitespace.
\<close>

theorem convert_to_markdown_nonempty_iff:
  "(words_result r = None \<or> words_result r = Some [] \<longrightarrow> convert_to_markdown r = []) \<and>
   (words_result r = Some ws \<longrightarrow>
      (convert_to_markdown r \<noteq> [] \<longleftrightarrow> (\<exists>w\<in>set ws. \<exists>c\<in>set (word_of w). \<not> isspace c)))"
proof -
  have "markdown_lines [] = []"
    by (simp add: markdown_lines_def md_init_def flush_def strip_def)
  then show ?thesis
    by (auto simp: convert_to_markdown_def join_empty_iff markdown_lines_no_empty_line
      markdown_lines_nonempty_iff)
qed

theorem convert_to_markdown_nonempty_iff_witness:
  "convert_to_markdown
     \<lparr>words_result = Some [], form_result = None, error_code = None, error_msg = None\<rparr> = []
   \<and> convert_to_markdown
     \<lparr>words_result = Some [word_at ''a'' 0], form_result = None, error_code = None,
      error_msg = None\<rparr> \<noteq> []"
proof -
  have "\<not> isspace 97" by (simp add: isspace_def)
  then have nb: "\<exists>w\<in>set [word_at ''a'' 0]. \<exists>c\<in>set (word_of w). \<not> isspace c"
    by (simp add: word_of_def word_at_def ascii_def)
  show ?thesis
    using nb
      convert_to_markdown_nonempty_iff [of "\<lparr>words_result = Some [], form_result = None,
          error_code = None, error_msg = None\<rparr>" "[]"]
      convert_to_markdown_nonempty_iff [of "\<lparr>words_result = Some [word_at ''a'' 0],
          form_result = None, error_code = None, error_msg = None\<rparr>" "[word_at ''a'' 0]"]
    by simp
qed

section \<open>Properties of the table rendering\<close>

lemma md_lines_Cons:
  "md_lines (headers # rest) =
     pipe_row headers # pipe_row (replicate (length headers) (ascii ''---'')) # map pipe_row rest"
  by (simp add: md_lines_def)

lemma convert_table_to_markdown_Cons:
  "form_result r = Some fr \<Longrightarrow> table_data fr = headers # rest \<Longrightarrow>
   convert_table_to_markdown r =
     join [10] (pipe_row headers # pipe_row (replicate (length headers) (ascii ''---''))
                # map pipe_row rest)"
  by (auto simp: convert_table_to_markdown_def Let_def md_lines_Cons)

text \<open>
  Claim C5. When \<^verbatim>\<open>form_result\<close> holds at least one row, the first row is rendered
  between pipes as the header, then comes a separator row with as many \<^verbatim>\<open>---\<close> cells as
  the header has cells, then every further row between pipes, all joined by newlines: one
  line more than there are rows. The rows A B, 1 2, 3 4 give exactly the four lines shown.
\<close>

theorem convert_table_to_markdown_rows:
  "(form_result r = Some fr \<and> table_data fr = headers # rest \<longrightarrow>
     convert_table_to_markdown r =
       join [10] (pipe_row headers # pipe_row (replicate (length headers) (ascii ''---''))
                  # map pipe_row rest)
     \<and> length (md_lines (table_data fr)) = Suc (length (table_data fr)))
   \<and> convert_table_to_markdown
       (r\<lparr>form_result := Some [row_of [''A'', ''B''], row_of [''1'', ''2''], row_of [''3'', ''4'']]\<rparr>)
     = ascii ''| A | B |'' @ [10] @ ascii ''| --- | --- |'' @ [10] @ ascii ''| 1 | 2 |'' @ [10]
       @ ascii ''| 3 | 4 |''"
proof -
  have "convert_table_to_markdown
       (r\<lparr>form_result := Some [row_of [''A'', ''B''], row_of [''1'', ''2''], row_of [''3'', ''4'']]\<rparr>)
     = ascii ''| A | B |'' @ [10] @ ascii ''| --- | --- |'' @ [10] @ ascii ''| 1 | 2 |'' @ [10]
       @ ascii ''| 3 | 4 |''"
    by (simp add: convert_table_to_markdown_def Let_def row_of_def md_lines_def pipe_row_def
        ascii_def)
  then show ?thesis
    using convert_table_to_markdown_Cons [of r fr headers rest] by (auto simp: md_lines_Cons)
qed

text \<open>A header of three cells, an entry without a row (skipped) and a data row of one cell.\<close>

theorem convert_table_to_markdown_rows_witness:
  "convert_table_to_markdown
     \<lparr>words_result = None,
      form_result = Some [row_of [''x'', ''y'', ''z''], \<lparr>row = None\<rparr>, row_of [''1'']],
      error_code = None, error_msg = None\<rparr>
   = ascii ''| x | y | z |'' @ [10] @ ascii ''| --- | --- | --- |'' @ [10] @ ascii ''| 1 |''"
  using convert_table_to_markdown_rows [of "\<lparr>words_result = None,
      form_result = Some [row_of [''x'', ''y'', ''z''], \<lparr>row = None\<rparr>, row_of [''1'']],
      error_code = None, error_msg = None\<rparr>"
      "[row_of [''x'', ''y'', ''z''], \<lparr>row = None\<rparr>, row_of [''1'']]"
      "map ascii [''x'', ''y'', ''z'']" "[map ascii [''1'']]"]
  by (simp add: row_of_def pipe_row_def ascii_def)

text \<open>
  Claim C6, as stated, fails: with \<^verbatim>\<open>form_result\<close> present and empty there are no
  rows, yet the table function returns the empty string while the text function returns
  the recognised word.
\<close>

theorem convert_table_to_markdown_fallback_counterexample:
  "form_result \<lparr>words_result = Some [word_at ''x'' 0], form_result = Some [],
       error_code = None, error_msg = None\<rparr> = Some []
   \<and> table_data [] = []
   \<and> convert_table_to_markdown
       \<lparr>words_result = Some [word_at ''x'' 0], form_result = Some [],
        error_code = None, error_msg = None\<rparr> = []
   \<and> convert_to_markdown
       \<lparr>words_result = Some [word_at ''x'' 0], form_result = Some [],
        error_code = None, error_msg = None\<rparr> = ascii ''x''
   \<and> convert_table_to_markdown
       \<lparr>words_result = Some [word_at ''x'' 0], form_result = Some [],
        error_code = None, error_msg = None\<rparr>
     \<noteq> convert_to_markdown
       \<lparr>words_result = Some [word_at ''x'' 0], form_result = Some [],
        error_code = None, error_msg = None\<rparr>"
  by (simp add: convert_table_to_markdown_def convert_to_markdown_def markdown_lines_def
      md_init_def md_step_def Let_def word_at_def word_of_def top_of_def flush_def strip_def
      ascii_def isspace_def)

text \<open>
  Claim C6, amended. The table function falls back to the text function when the answer
  has no \<^verbatim>\<open>form_result\<close> key. When the key is present and holds no rows (the list is
  empty, or no entry has a \<^verbatim>\<open>'row'\<close>), it returns the empty string.
\<close>

theorem convert_table_to_markdown_fallback:
  "(form_result r = None \<longrightarrow> convert_table_to_markdown r = convert_to_markdown r) \<and>
   (form_result r = Some fr \<and> table_data fr = [] \<longrightarrow> convert_table_to_markdown r = [])"
  by (simp add: convert_table_to_markdown_def Let_def)

theorem convert_table_to_markdown_fallback_witness:
  "convert_table_to_markdown
     \<lparr>words_result = Some [word_at ''x'' 0], form_result = None,
      error_code = None, error_msg = None\<rparr> = ascii ''x''
   \<and> convert_table_to_markdown
     \<lparr>words_result = Some [word_at ''x'' 0], form_result = Some [\<lparr>row = None\<rparr>],
      error_code = None, error_msg = None\<rparr> = []"
  using convert_table_to_markdown_fallback [of "\<lparr>words_result = Some [word_at ''x'' 0],
      form_result = None, error_code = None, error_msg = None\<rparr>" "[]"]
    convert_table_to_markdown_fallback [of "\<lparr>words_result = Some [word_at ''x'' 0],
      form_result = Some [\<lparr>row = None\<rparr>], error_code = None, error_msg = None\<rparr>"
      "[\<lparr>row = None\<rparr>]"]
  by (simp add: convert_to_markdown_def markdown_lines_def
      md_init_def md_step_def Let_def word_at_def word_of_def top_of_def flush_def strip_def
      ascii_def isspace_def)

section \<open>Doubles at the sample values\<close>

lemmas double_eval = round_double_def binary_exponent_def bit_length.simps round_even_def
  pow2_def float_sub_def float_add_def float_of_int_def

lemma round_double_3600: "round_double 3600 = Finite 3600"
  by (simp add: double_eval)

lemma float_of_int_3600: "float_of_int 3600 = Some 3600"
  by (simp add: double_eval)

lemma expiry_sample: "float_sub (float_add 0 3600) 300 = Finite 3300"
  by (simp add: double_eval)

section \<open>Properties of the processor's counters\<close>

lemma process_single_image_step:
  assumes "process_single_image p fs e ip outp ty = (ok, p', fs')"
  shows "processed_count p' = processed_count p + 1 \<and>
     (if ok then success_count p' = success_count p + 1 \<and> failed_count p' = failed_count p
      else success_count p' = success_count p \<and> failed_count p' = failed_count p + 1)"
  using assms
  by (auto simp: process_single_image_def Let_def split: prod.splits sum.splits if_splits option.splits)

lemma process_single_image_invariant:
  assumes "process_single_image p fs e ip outp ty = (ok, p', fs')"
    and "processed_count p = success_count p + failed_count p"
  shows "processed_count p' = success_count p' + failed_count p'"
  using process_single_image_step [OF assms(1)] assms(2) by (cases ok) simp_all

text \<open>Over a run of calls the counters stay balanced, and every call is counted once.\<close>

lemma process_images_invariant:
  "processed_count p = success_count p + failed_count p \<Longrightarrow>
   process_images p fs calls = (p', fs') \<Longrightarrow>
   processed_count p' = success_count p' + failed_count p' \<and>
   processed_count p' = processed_count p + length calls"
proof (induction calls arbitrary: p fs)
  case Nil
  then show ?case by simp
next
  case (Cons call calls)
  obtain e ip outp ty where call: "call = (e, ip, outp, ty)"
    by (cases call) auto
  obtain ok p1 fs1 where step: "process_single_image p fs e ip outp ty = (ok, p1, fs1)"
    by (cases "process_single_image p fs e ip outp ty") auto
  have inv1: "processed_count p1 = success_count p1 + failed_count p1"
    using process_single_image_invariant [OF step Cons.prems(1)] .
  have rest: "process_images p1 fs1 calls = (p', fs')"
    using Cons.prems(2) by (simp add: call step)
  have "processed_count p1 = processed_count p + 1"
    using process_single_image_step [OF step] by simp
  with Cons.IH [OF inv1 rest] show ?case by simp
qed

lemma processor_init_counters:
  "processor_init ak sk t reply = Inr p \<Longrightarrow>
   processed_count p = 0 \<and> success_count p = 0 \<and> failed_count p = 0"
  by (auto simp: processor_init_def split: sum.splits)

lemma accurate_neq: "ascii ''accurate'' \<noteq> ascii ''table''" "ascii ''accurate'' \<noteq> ascii ''handwriting''"
  by (simp_all add: ascii_def)

lemma recognise_sample:
  "recognise sample_client (sample_env (Inr r)) img (ascii ''accurate'') =
     (if error_code r \<noteq> None
      then Inl (ApiError (case error_msg r of None \<Rightarrow> ascii ''Unknown error'' | Some m \<Rightarrow> m))
      else Inr (convert_to_markdown r), sample_client)"
proof -
  have tok: "access_token sample_client \<noteq> None" "access_token sample_client \<noteq> Some []"
    "\<not> float_gt (check_time (sample_env (Inr r))) (token_expires sample_client)"
    by (simp_all add: sample_client_def sample_env_def ascii_def float_gt_def)
  have env: "image_bytes (sample_env (Inr r)) img = Inr []"
    "api_reply (sample_env (Inr r)) (ascii ''general_basic'') = Inr r"
    by (simp_all add: sample_env_def)
  show ?thesis
    by (simp add: recognise_def accurate_neq accurate_text_ocr_def ocr_request_def
        make_request_def ensure_token_valid_def tok env)
qed

lemma empty_content: "convert_to_markdown empty_answer = []"
  by (simp add: convert_to_markdown_def empty_answer_def markdown_lines_def md_init_def flush_def
      strip_def)

lemma text_content: "convert_to_markdown text_answer = ascii ''a''"
  by (simp add: convert_to_markdown_def text_answer_def markdown_lines_def md_init_def flush_def
      strip_def md_step_def Let_def word_of_def top_of_def word_at_def ascii_def isspace_def)

lemma strip_Nil: "strip [] = []"
  by (simp add: strip_def)

lemma process_single_image_unfold:
  "recognise (client p) e img ty = (res, c') \<Longrightarrow>
   process_single_image p fs e img out ty =
     (case res of
        Inl x \<Rightarrow>
          (False, p\<lparr>client := c', failed_count := failed_count p + 1,
                     processed_count := processed_count p + 1\<rparr>, fs)
      | Inr content \<Rightarrow>
          if strip content \<noteq> [] then
            (case write_error e out of
               Some x \<Rightarrow>
                 (False, p\<lparr>client := c', failed_count := failed_count p + 1,
                            processed_count := processed_count p + 1\<rparr>, fs)
             | None \<Rightarrow>
                 (True, p\<lparr>client := c', success_count := success_count p + 1,
                           processed_count := processed_count p + 1\<rparr>,
                  fs(out \<mapsto> header (timestamp e) ty @ content)))
          else (False, p\<lparr>client := c', failed_count := failed_count p + 1,
                          processed_count := processed_count p + 1\<rparr>, fs))"
  by (simp add: process_single_image_def Let_def split: sum.splits option.splits)

lemma sample_env_sel:
  "write_error (sample_env r) path = None"
  "timestamp (sample_env r) = ascii ''2026-01-01 00:00:00''"
  by (simp_all add: sample_env_def)

lemma sample_processor_sel:
  "client sample_processor = sample_client"
  "processed_count sample_processor = 0"
  "success_count sample_processor = 0"
  "failed_count sample_processor = 0"
  by (simp_all add: sample_processor_def)

lemma error_code_answers:
  "error_code empty_answer = None" "error_code text_answer = None"
  by (simp_all add: empty_answer_def text_answer_def)

lemma process_sample_empty:
  "process_single_image sample_processor Map.empty (sample_env (Inr empty_answer))
     (ascii ''in/a.jpg'') (ascii ''out/a_baidu.md'') (ascii ''accurate'')
   = (False, sample_processor\<lparr>processed_count := 1, failed_count := 1\<rparr>, Map.empty)"
proof -
  have r: "recognise (client sample_processor) (sample_env (Inr empty_answer)) (ascii ''in/a.jpg'')
      (ascii ''accurate'') = (Inr [], sample_client)"
    by (simp add: sample_processor_sel recognise_sample error_code_answers empty_content)
  show ?thesis
    unfolding process_single_image_unfold [OF r] by (simp add: strip_Nil sample_processor_def)
qed

lemma process_sample_text:
  "process_single_image sample_processor Map.empty (sample_env (Inr text_answer))
     (ascii ''in/a.jpg'') (ascii ''out/a_baidu.md'') (ascii ''accurate'')
   = (True, sample_processor\<lparr>processed_count := 1, success_count := 1\<rparr>,
      [ascii ''out/a_baidu.md'' \<mapsto>
         header (ascii ''2026-01-01 00:00:00'') (ascii ''accurate'') @ ascii ''a''])"
proof -
  have s: "strip (ascii ''a'') \<noteq> []"
    by (simp add: strip_def ascii_def isspace_def)
  have r: "recognise (client sample_processor) (sample_env (Inr text_answer)) (ascii ''in/a.jpg'')
      (ascii ''accurate'') = (Inr (ascii ''a''), sample_client)"
    by (simp add: sample_processor_sel recognise_sample error_code_answers text_content)
  show ?thesis
    unfolding process_single_image_unfold [OF r] using s by (simp add: sample_env_sel sample_processor_def)
qed

text \<open>
  Claim C10. Every call of \<^verbatim>\<open>process_single_image\<close>, whatever path it takes (success,
  empty content, or an exception caught inside), adds one to \<^verbatim>\<open>processed_count\<close> and
  one to exactly one of \<^verbatim>\<open>success_count\<close> (when it returns true) and
  \<^verbatim>\<open>failed_count\<close> (when it returns false), so it keeps
  \<^verbatim>\<open>processed_count = success_count + failed_count\<close>; the equation holds for a new
  processor and therefore after any run of calls on it.
\<close>

theorem process_single_image_counters:
  "(process_single_image p fs e ip outp ty = (ok, p', fs') \<longrightarrow>
      processed_count p' = processed_count p + 1 \<and>
      (if ok then success_count p' = success_count p + 1 \<and> failed_count p' = failed_count p
       else success_count p' = success_count p \<and> failed_count p' = failed_count p + 1) \<and>
      (processed_count p = success_count p + failed_count p \<longrightarrow>
       processed_count p' = success_count p' + failed_count p')) \<and>
   (processor_init ak sk t reply = Inr p0 \<and> process_images p0 fs0 calls = (pn, fsn) \<longrightarrow>
      processed_count pn = success_count pn + failed_count pn \<and>
      processed_count pn = length calls)"
proof -
  have a: "processed_count pn = success_count pn + failed_count pn \<and>
      processed_count pn = length calls"
    if "processor_init ak sk t reply = Inr p0" "process_images p0 fs0 calls = (pn, fsn)"
    using processor_init_counters [OF that(1)]
      process_images_invariant [of p0 fs0 calls pn fsn] that(2) by simp
  show ?thesis
    using process_single_image_step [of p fs e ip outp ty ok p' fs']
      process_single_image_invariant [of p fs e ip outp ty ok p' fs'] a
    by blast
qed

text \<open>
  On a new processor, a call that finds no content is counted as one failure, and a call
  that finds a word is counted as one success and writes the artifact.
\<close>

theorem process_single_image_counters_witness:
  "process_single_image sample_processor Map.empty (sample_env (Inr empty_answer))
     (ascii ''in/a.jpg'') (ascii ''out/a_baidu.md'') (ascii ''accurate'')
   = (False, sample_processor\<lparr>processed_count := 1, failed_count := 1\<rparr>, Map.empty)
   \<and> processed_count (sample_processor\<lparr>processed_count := 1, failed_count := 1\<rparr>) = 1
   \<and> success_count (sample_processor\<lparr>processed_count := 1, failed_count := 1\<rparr>) = 0
   \<and> failed_count (sample_processor\<lparr>processed_count := 1, failed_count := 1\<rparr>) = 1
   \<and> process_single_image sample_processor Map.empty (sample_env (Inr text_answer))
     (ascii ''in/a.jpg'') (ascii ''out/a_baidu.md'') (ascii ''accurate'')
   = (True, sample_processor\<lparr>processed_count := 1, success_count := 1\<rparr>,
      [ascii ''out/a_baidu.md'' \<mapsto>
         header (ascii ''2026-01-01 00:00:00'') (ascii ''accurate'') @ ascii ''a''])
   \<and> processed_count (sample_processor\<lparr>processed_count := 1, success_count := 1\<rparr>) = 1
   \<and> success_count (sample_processor\<lparr>processed_count := 1, success_count := 1\<rparr>) = 1
   \<and> failed_count (sample_processor\<lparr>processed_count := 1, success_count := 1\<rparr>) = 0
   \<and> processor_init (ascii ''key'') (ascii ''secret'') 0
        (Inr \<lparr>tok_access_token = Some (ascii ''T''), tok_expires_in = Some 3600\<rparr>)
       = Inr sample_processor
   \<and> processed_count (fst (process_images sample_processor Map.empty
        [(sample_env (Inr empty_answer), ascii ''in/a.jpg'', ascii ''out/a_baidu.md'',
          ascii ''accurate'')])) = 1"
proof -
  let ?calls = "[(sample_env (Inr empty_answer), ascii ''in/a.jpg'', ascii ''out/a_baidu.md'',
          ascii ''accurate'')]"
  let ?written = "[ascii ''out/a_baidu.md'' \<mapsto>
         header (ascii ''2026-01-01 00:00:00'') (ascii ''accurate'') @ ascii ''a'']"
  have init: "processor_init (ascii ''key'') (ascii ''secret'') 0
        (Inr \<lparr>tok_access_token = Some (ascii ''T''), tok_expires_in = Some 3600\<rparr>)
       = Inr sample_processor"
    by (simp add: processor_init_def client_init_def get_access_token_def sample_processor_def
        sample_client_def float_of_int_3600 expiry_sample)
  have run: "process_images sample_processor Map.empty ?calls
      = (sample_processor\<lparr>processed_count := 1, failed_count := 1\<rparr>, Map.empty)"
    by (simp add: process_sample_empty)
  have zero: "processed_count sample_processor = success_count sample_processor + failed_count sample_processor"
    by (simp add: sample_processor_def)
  note failing = process_single_image_counters [of sample_processor Map.empty
        "sample_env (Inr empty_answer)"
        "ascii ''in/a.jpg''" "ascii ''out/a_baidu.md''" "ascii ''accurate''" False
        "sample_processor\<lparr>processed_count := 1, failed_count := 1\<rparr>" Map.empty
        "ascii ''key''" "ascii ''secret''" 0
        "Inr \<lparr>tok_access_token = Some (ascii ''T''), tok_expires_in = Some 3600\<rparr>"
        sample_processor Map.empty ?calls
        "sample_processor\<lparr>processed_count := 1, failed_count := 1\<rparr>" Map.empty]
  note succeeding = process_single_image_counters [of sample_processor Map.empty
        "sample_env (Inr text_answer)"
        "ascii ''in/a.jpg''" "ascii ''out/a_baidu.md''" "ascii ''accurate''" True
        "sample_processor\<lparr>processed_count := 1, success_count := 1\<rparr>" ?written
        "ascii ''key''" "ascii ''secret''" 0
        "Inr \<lparr>tok_access_token = Some (ascii ''T''), tok_expires_in = Some 3600\<rparr>"
        sample_processor Map.empty ?calls
        "sample_processor\<lparr>processed_count := 1, failed_count := 1\<rparr>" Map.empty]
  show ?thesis
    using failing succeeding process_sample_empty process_sample_text init run zero
    by (simp add: sample_processor_def)
qed

section \<open>Properties of the credential\<close>

lemma get_access_token_posts: "fst (get_access_token c t reply) = [TokenPost]"
  by (simp add: get_access_token_def)

lemma make_request_posts:
  "fst (make_request c e endpoint) =
     (if access_token c = None \<or> access_token c = Some [] \<or>
         float_gt (check_time e) (token_expires c)
      then TokenPost #
        (case fst (snd (get_access_token c (grant_time e) (token_reply e))) of
           Some x \<Rightarrow> []
         | None \<Rightarrow>
             [ApiPost endpoint
                (access_token (snd (snd (get_access_token c (grant_time e) (token_reply e)))))])
      else [ApiPost endpoint (access_token c)])"
proof -
  obtain ps x c' where g: "get_access_token c (grant_time e) (token_reply e) = (ps, x, c')"
    by (cases "get_access_token c (grant_time e) (token_reply e)") auto
  then have ps: "ps = [TokenPost]"
    using get_access_token_posts [of c "grant_time e" "token_reply e"] by simp
  show ?thesis
    by (cases x) (simp_all add: make_request_def ensure_token_valid_def g ps)
qed

lemma method_posts:
  "fst (ocr_request c e image_path endpoint) =
     (case image_bytes e image_path of Inl x \<Rightarrow> [] | Inr image_data \<Rightarrow> fst (make_request c e endpoint))"
  by (simp add: ocr_request_def split: sum.splits)

lemma get_access_token_stored:
  assumes "get_access_token c t (Inr result) = (posts, None, c')"
    and "float_of_int (case tok_expires_in result of None \<Rightarrow> 3600 | Some s \<Rightarrow> s) = Some lifetime"
  shows "access_token c' = tok_access_token result"
    "token_expires c' = float_sub (float_add t lifetime) 300"
    "access_token c' \<noteq> None"
  using assms by (auto simp: get_access_token_def split: option.splits)

text \<open>
  Claim C7, amended. The token is obtained when the client is built: the constructor sends
  one token request; if the answer holds a token it is stored with the expiry
  \<open>(t + expires_in) - 300\<close> (3600 for a missing \<^verbatim>\<open>expires_in\<close>), each operation
  rounded to a double, otherwise building the client fails. Every recognition request goes
  through \<^verbatim>\<open>_make_request\<close>, whose requests are, in order: a token request exactly
  when the stored token is absent or empty or the clock reading is later than the stored
  expiry, and then, unless the refresh raised, the recognition request with the token the
  client holds at that moment. So after a token with a non-empty text has been stored at
  time \<open>t\<close>, the next request is preceded by a token request exactly when its clock
  reading is later than the double \<open>(t + expires_in) - 300\<close>. An image that cannot be
  read causes no request at all.
\<close>

theorem credential_refresh:
  "fst (client_init ak sk aid t reply) = [TokenPost] \<and>
   (tok_access_token result = Some tok \<and>
    float_of_int (case tok_expires_in result of None \<Rightarrow> 3600 | Some s \<Rightarrow> s) = Some lifetime \<longrightarrow>
      snd (client_init ak sk aid t (Inr result)) =
        Inr \<lparr>api_key = ak, secret_key = sk, app_id = aid, access_token = Some tok,
             token_expires = float_sub (float_add t lifetime) 300\<rparr>) \<and>
   (tok_access_token result = None \<longrightarrow>
      snd (client_init ak sk aid t (Inr result)) = Inl (TokenError result)) \<and>
   fst (make_request c e endpoint) =
     (if access_token c = None \<or> access_token c = Some [] \<or>
         float_gt (check_time e) (token_expires c)
      then TokenPost #
        (case fst (snd (get_access_token c (grant_time e) (token_reply e))) of
           Some x \<Rightarrow> []
         | None \<Rightarrow>
             [ApiPost endpoint
                (access_token (snd (snd (get_access_token c (grant_time e) (token_reply e)))))])
      else [ApiPost endpoint (access_token c)]) \<and>
   (image_bytes e image_path = Inr image_data \<longrightarrow>
      fst (general_text_ocr c e image_path) = fst (make_request c e (ascii ''general'')) \<and>
      fst (accurate_text_ocr c e image_path) = fst (make_request c e (ascii ''general_basic'')) \<and>
      fst (table_ocr c e image_path) = fst (make_request c e (ascii ''form'')) \<and>
      fst (handwriting_ocr c e image_path) = fst (make_request c e (ascii ''handwriting''))) \<and>
   (image_bytes e image_path = Inl err \<longrightarrow>
      fst (general_text_ocr c e image_path) = [] \<and>
      fst (accurate_text_ocr c e image_path) = [] \<and>
      fst (table_ocr c e image_path) = [] \<and>
      fst (handwriting_ocr c e image_path) = []) \<and>
   (get_access_token c t (Inr result) = (posts, None, c') \<and>
    float_of_int (case tok_expires_in result of None \<Rightarrow> 3600 | Some s \<Rightarrow> s) = Some lifetime \<longrightarrow>
      access_token c' = tok_access_token result \<and>
      token_expires c' = float_sub (float_add t lifetime) 300 \<and>
      (access_token c' \<noteq> Some [] \<longrightarrow>
         (TokenPost \<in> set (fst (make_request c' e endpoint)) \<longleftrightarrow>
          float_gt (check_time e) (float_sub (float_add t lifetime) 300))))"
proof -
  have unreadable: "fst (general_text_ocr c e image_path) = [] \<and>
      fst (accurate_text_ocr c e image_path) = [] \<and>
      fst (table_ocr c e image_path) = [] \<and>
      fst (handwriting_ocr c e image_path) = []"
    if "image_bytes e image_path = Inl err"
    using that
    by (simp add: general_text_ocr_def accurate_text_ocr_def table_ocr_def handwriting_ocr_def
        method_posts)
  have init_posts: "fst (client_init ak sk aid t reply) = [TokenPost]"
    by (simp add: client_init_def get_access_token_def split: sum.splits option.splits)
  have init_ok: "snd (client_init ak sk aid t (Inr result)) =
        Inr \<lparr>api_key = ak, secret_key = sk, app_id = aid, access_token = Some tok,
             token_expires = float_sub (float_add t lifetime) 300\<rparr>"
    if "tok_access_token result = Some tok"
      "float_of_int (case tok_expires_in result of None \<Rightarrow> 3600 | Some s \<Rightarrow> s) = Some lifetime"
    using that by (simp add: client_init_def get_access_token_def)
  have init_none: "snd (client_init ak sk aid t (Inr result)) = Inl (TokenError result)"
    if "tok_access_token result = None"
    using that by (simp add: client_init_def get_access_token_def)
  have methods: "fst (general_text_ocr c e image_path) = fst (make_request c e (ascii ''general'')) \<and>
      fst (accurate_text_ocr c e image_path) = fst (make_request c e (ascii ''general_basic'')) \<and>
      fst (table_ocr c e image_path) = fst (make_request c e (ascii ''form'')) \<and>
      fst (handwriting_ocr c e image_path) = fst (make_request c e (ascii ''handwriting''))"
    if "image_bytes e image_path = Inr image_data"
    using that
    by (simp add: general_text_ocr_def accurate_text_ocr_def table_ocr_def handwriting_ocr_def
        method_posts)
  have stored: "access_token c' = tok_access_token result \<and>
      token_expires c' = float_sub (float_add t lifetime) 300 \<and>
      (access_token c' \<noteq> Some [] \<longrightarrow>
         (TokenPost \<in> set (fst (make_request c' e endpoint)) \<longleftrightarrow>
          float_gt (check_time e) (float_sub (float_add t lifetime) 300)))"
    if g: "get_access_token c t (Inr result) = (posts, None, c')"
      and l: "float_of_int (case tok_expires_in result of None \<Rightarrow> 3600 | Some s \<Rightarrow> s) = Some lifetime"
  proof -
    note s = get_access_token_stored [OF g l]
    have "TokenPost \<in> set (fst (make_request c' e endpoint)) \<longleftrightarrow>
        float_gt (check_time e) (token_expires c')"
      if "access_token c' \<noteq> Some []"
      using that s(3) by (auto simp: make_request_posts split: option.splits)
    with s show ?thesis by simp
  qed
  show ?thesis
    using init_posts init_ok init_none make_request_posts [of c e endpoint] methods unreadable
      stored
    by blast
qed

lemma float_of_int_month: "float_of_int 2592000 = Some 2592000"
  by (simp add: double_eval)

lemma expiry_month: "float_sub (float_add 1000 2592000) 300 = Finite 2592700"
  by (simp add: double_eval)

lemma expiry_at_100: "float_sub (float_add 100 3600) 300 = Finite 3400"
  by (simp add: double_eval)

text \<open>
  A clock reading with a fraction: the double nearest to 1.344. The sum with 3600 and the
  difference with 300 are both rounded, and the stored expiry is the double nearest to
  3301.344, which is larger than the exact sum.
\<close>

lemma expiry_fraction:
  "float_sub (float_add (6052837899185947 / 2 ^ 52) 3600) 300
     = Finite (3629866115288531 / 2 ^ 40)"
  "(6052837899185947 / 2 ^ 52) + 3600 - 300 < (3629866115288531 / 2 ^ 40 :: real)"
  by (simp_all add: double_eval)

text \<open>
  Claim C7, as stated, fails: the token is not obtained lazily. Building the client
  already sends the token request and stores the token, before any recognition request is
  made.
\<close>

theorem credential_eager_counterexample:
  "client_init (ascii ''key'') (ascii ''secret'') None 1000
     (Inr \<lparr>tok_access_token = Some (ascii ''T''), tok_expires_in = Some 2592000\<rparr>)
   = ([TokenPost],
      Inr \<lparr>api_key = ascii ''key'', secret_key = ascii ''secret'', app_id = None,
           access_token = Some (ascii ''T''), token_expires = Finite 2592700\<rparr>)"
  by (simp add: client_init_def get_access_token_def float_of_int_month expiry_month)

text \<open>
  The sample client is what the constructor builds at time 0 from a token that lives 3600
  seconds. With that client a request at time 100 needs no token request; with an expiry
  of 99 it is preceded by one. A token stored at the double nearest to 1.344 expires at the
  double nearest to 3301.344, and a request at exactly that clock reading does not refresh.
\<close>

theorem credential_refresh_witness:
  "client_init (ascii ''key'') (ascii ''secret'') None 0
     (Inr \<lparr>tok_access_token = Some (ascii ''T''), tok_expires_in = Some 3600\<rparr>)
     = ([TokenPost], Inr sample_client)
   \<and> client_init (ascii ''key'') (ascii ''secret'') None 0
     (Inr \<lparr>tok_access_token = None, tok_expires_in = None\<rparr>)
     = ([TokenPost], Inl (TokenError \<lparr>tok_access_token = None, tok_expires_in = None\<rparr>))
   \<and> fst (accurate_text_ocr sample_client (sample_env (Inr text_answer)) (ascii ''in/a.jpg''))
     = [ApiPost (ascii ''general_basic'') (Some (ascii ''T''))]
   \<and> fst (accurate_text_ocr (sample_client\<lparr>token_expires := Finite 99\<rparr>)
          (sample_env (Inr text_answer)) (ascii ''in/a.jpg''))
     = [TokenPost, ApiPost (ascii ''general_basic'') (Some (ascii ''T''))]
   \<and> get_access_token sample_client (6052837899185947 / 2 ^ 52)
       (Inr \<lparr>tok_access_token = Some (ascii ''T''), tok_expires_in = Some 3600\<rparr>)
     = ([TokenPost], None, sample_client\<lparr>token_expires := Finite (3629866115288531 / 2 ^ 40)\<rparr>)
   \<and> TokenPost \<notin> set (fst (make_request
        (sample_client\<lparr>token_expires := Finite (3629866115288531 / 2 ^ 40)\<rparr>)
        ((sample_env (Inr text_answer))\<lparr>check_time := 3629866115288531 / 2 ^ 40\<rparr>)
        (ascii ''general_basic'')))
   \<and> fst (accurate_text_ocr sample_client
        ((sample_env (Inr text_answer))\<lparr>image_bytes := \<lambda>path. Inl (LibraryError [])\<rparr>)
        (ascii ''in/a.jpg'')) = []"
proof -
  let ?R = "\<lparr>tok_access_token = Some (ascii ''T''), tok_expires_in = Some 3600\<rparr>"
  let ?N = "\<lparr>tok_access_token = None, tok_expires_in = None\<rparr>"
  let ?e = "sample_env (Inr text_answer)"
  let ?t = "6052837899185947 / 2 ^ 52 :: real"
  let ?x = "3629866115288531 / 2 ^ 40 :: real"
  let ?ep = "ascii ''general_basic''"
  let ?img = "ascii ''in/a.jpg''"
  have env: "image_bytes ?e ?img = Inr []" "check_time ?e = 100" "grant_time ?e = 100"
    "token_reply ?e = Inr ?R"
    "check_time (?e\<lparr>check_time := ?x\<rparr>) = ?x"
    by (simp_all add: sample_env_def)
  have cl: "access_token sample_client = Some (ascii ''T'')"
    "token_expires sample_client = Finite 3300" "ascii ''T'' \<noteq> []"
    by (simp_all add: sample_client_def ascii_def)
  have g: "get_access_token sample_client ?t (Inr ?R)
      = ([TokenPost], None, sample_client\<lparr>token_expires := Finite ?x\<rparr>)"
    using expiry_fraction(1)
    by (simp add: get_access_token_def float_of_int_3600 sample_client_def)
  have g99: "get_access_token (sample_client\<lparr>token_expires := Finite 99\<rparr>) 100 (Inr ?R)
      = ([TokenPost], None, sample_client\<lparr>token_expires := Finite 3400\<rparr>)"
    by (simp add: get_access_token_def float_of_int_3600 expiry_at_100 sample_client_def)
  have i1: "fst (client_init (ascii ''key'') (ascii ''secret'') None 0 (Inr ?R)) = [TokenPost]"
    "fst (client_init (ascii ''key'') (ascii ''secret'') None 0 (Inr ?N)) = [TokenPost]"
    using credential_refresh [where ak = "ascii ''key''" and sk = "ascii ''secret''" and aid = None and t = 0
        and reply = "Inr ?R", THEN conjunct1]
      credential_refresh [where ak = "ascii ''key''" and sk = "ascii ''secret''" and aid = None and t = 0
        and reply = "Inr ?N", THEN conjunct1]
    by simp_all
  have i2: "snd (client_init (ascii ''key'') (ascii ''secret'') None 0 (Inr ?R)) = Inr sample_client"
    using credential_refresh [where ak = "ascii ''key''" and sk = "ascii ''secret''" and aid = None and t = 0
        and result = ?R and tok = "ascii ''T''" and lifetime = 3600,
        THEN conjunct2, THEN conjunct1]
    by (simp add: float_of_int_3600 expiry_sample sample_client_def)
  have i3: "snd (client_init (ascii ''key'') (ascii ''secret'') None 0 (Inr ?N)) = Inl (TokenError ?N)"
    using credential_refresh [where ak = "ascii ''key''" and sk = "ascii ''secret''" and aid = None and t = 0
        and result = ?N, THEN conjunct2, THEN conjunct2, THEN conjunct1]
    by simp
  have m1: "fst (make_request sample_client ?e ?ep) = [ApiPost ?ep (Some (ascii ''T''))]"
    using credential_refresh [where c = sample_client and e = ?e and endpoint = ?ep,
        THEN conjunct2, THEN conjunct2, THEN conjunct2, THEN conjunct1]
    by (simp add: env cl float_gt_def)
  have m2: "fst (make_request (sample_client\<lparr>token_expires := Finite 99\<rparr>) ?e ?ep)
      = [TokenPost, ApiPost ?ep (Some (ascii ''T''))]"
    using credential_refresh [where c = "sample_client\<lparr>token_expires := Finite 99\<rparr>" and e = ?e
        and endpoint = ?ep, THEN conjunct2, THEN conjunct2, THEN conjunct2, THEN conjunct1]
    by (simp add: env cl float_gt_def g99)
  have a1: "fst (accurate_text_ocr c ?e ?img) = fst (make_request c ?e ?ep)" for c
    using credential_refresh [where c = c and e = ?e and image_path = ?img and image_data = "[]",
        THEN conjunct2, THEN conjunct2, THEN conjunct2, THEN conjunct2, THEN conjunct1]
    by (simp add: env)
  have u1: "fst (accurate_text_ocr sample_client
      (?e\<lparr>image_bytes := \<lambda>path. Inl (LibraryError [])\<rparr>) ?img) = []"
    using credential_refresh [where c = sample_client
        and e = "?e\<lparr>image_bytes := \<lambda>path. Inl (LibraryError [])\<rparr>" and image_path = ?img
        and err = "LibraryError []",
        THEN conjunct2, THEN conjunct2, THEN conjunct2, THEN conjunct2, THEN conjunct2,
        THEN conjunct1]
    by simp
  have s1: "TokenPost \<notin> set (fst (make_request (sample_client\<lparr>token_expires := Finite ?x\<rparr>)
      (?e\<lparr>check_time := ?x\<rparr>) ?ep))"
  proof -
    have f: "float_of_int (case tok_expires_in ?R of None \<Rightarrow> 3600 | Some s \<Rightarrow> s) = Some 3600"
      by (simp add: float_of_int_3600)
    have tok: "access_token (sample_client\<lparr>token_expires := Finite ?x\<rparr>) \<noteq> Some []"
      by (simp add: cl)
    have "TokenPost \<in> set (fst (make_request (sample_client\<lparr>token_expires := Finite ?x\<rparr>)
          (?e\<lparr>check_time := ?x\<rparr>) ?ep)) \<longleftrightarrow>
        float_gt (check_time (?e\<lparr>check_time := ?x\<rparr>)) (float_sub (float_add ?t 3600) 300)"
      using credential_refresh [where t = ?t and result = ?R and lifetime = 3600 and c = sample_client
        and e = "?e\<lparr>check_time := ?x\<rparr>" and endpoint = ?ep and posts = "[TokenPost]"
        and c' = "sample_client\<lparr>token_expires := Finite ?x\<rparr>",
        THEN conjunct2, THEN conjunct2, THEN conjunct2, THEN conjunct2, THEN conjunct2,
        THEN conjunct2] g f tok
      by blast
    then show ?thesis
      unfolding expiry_fraction(1) by (simp add: float_gt_def)
  qed
  show ?thesis
    using i1 i2 i3 m1 m2 a1 u1 s1 g
    by (simp add: prod_eq_iff)
qed

section \<open>Properties of the retry loop\<close>

lemma retry_loop_done:
  "\<not> int attempt < max_retries \<Longrightarrow> retry_loop call max_retries img out attempt s = (None, s)"
  by (subst retry_loop.simps) simp

lemma before_call_sel:
  "processor (before_call attempt s) = processor s"
  "written (before_call attempt s) = written s"
  by (simp_all add: before_call_def)

lemma retry_loop_step:
  "int attempt < max_retries \<Longrightarrow>
   retry_loop call max_retries img out attempt s =
     (case call_result call attempt s of
        Inr True \<Rightarrow>
          (Some \<lparr>success = True, image_file = img, output_file = out,
                 char_count = fst (read_counts (written (after_call call attempt s)) out),
                 word_count = snd (read_counts (written (after_call call attempt s)) out),
                 error = None, retries = attempt\<rparr>,
           (after_call call attempt s)\<lparr>stats_success_count :=
              stats_success_count (after_call call attempt s) + 1\<rparr>)
      | Inr False \<Rightarrow>
          if int attempt < max_retries - 1
          then retry_loop call max_retries img out (Suc attempt) (after_call call attempt s)
          else (Some \<lparr>success = False, image_file = img, output_file = out,
                      char_count = 0, word_count = 0, error = Some failed_msg,
                      retries = attempt\<rparr>,
                (after_call call attempt s)\<lparr>stats_failed_count :=
                   stats_failed_count (after_call call attempt s) + 1\<rparr>)
      | Inl msg \<Rightarrow>
          if int attempt < max_retries - 1
          then retry_loop call max_retries img out (Suc attempt) (after_call call attempt s)
          else (Some \<lparr>success = False, image_file = img, output_file = out,
                      char_count = 0, word_count = 0, error = Some msg,
                      retries = attempt\<rparr>,
                (after_call call attempt s)\<lparr>stats_failed_count :=
                   stats_failed_count (after_call call attempt s) + 1\<rparr>))"
proof -
  have fold: "(if attempt > 0 then s\<lparr>slept := slept s @ [2 ^ attempt]\<rparr> else s) = before_call attempt s"
    by (simp add: before_call_def)
  assume "int attempt < max_retries"
  then show ?thesis
    unfolding retry_loop.simps [of call max_retries img out attempt s] fold
    by (simp add: Let_def after_call_def call_result_def before_call_sel
        split: sum.splits bool.splits)
qed

lemma retry_loop_success:
  "int attempt < max_retries \<Longrightarrow> call_result call attempt s = Inr True \<Longrightarrow>
   retry_loop call max_retries img out attempt s =
     (Some \<lparr>success = True, image_file = img, output_file = out,
            char_count = fst (read_counts (written (after_call call attempt s)) out),
            word_count = snd (read_counts (written (after_call call attempt s)) out),
            error = None, retries = attempt\<rparr>,
      (after_call call attempt s)\<lparr>stats_success_count :=
         stats_success_count (after_call call attempt s) + 1\<rparr>)"
  by (subst retry_loop_step) simp_all

lemma retry_loop_again:
  "int attempt < max_retries - 1 \<Longrightarrow> call_result call attempt s \<noteq> Inr True \<Longrightarrow>
   retry_loop call max_retries img out attempt s =
     retry_loop call max_retries img out (Suc attempt) (after_call call attempt s)"
  by (subst retry_loop_step) (simp_all split: sum.splits bool.splits)

lemma retry_loop_last:
  "int attempt < max_retries \<Longrightarrow> \<not> int attempt < max_retries - 1 \<Longrightarrow>
   call_result call attempt s \<noteq> Inr True \<Longrightarrow>
   retry_loop call max_retries img out attempt s =
     (Some \<lparr>success = False, image_file = img, output_file = out, char_count = 0, word_count = 0,
            error = Some (case call_result call attempt s of Inl msg \<Rightarrow> msg | Inr b \<Rightarrow> failed_msg),
            retries = attempt\<rparr>,
      (after_call call attempt s)\<lparr>stats_failed_count :=
         stats_failed_count (after_call call attempt s) + 1\<rparr>)"
  by (subst retry_loop_step) (simp_all split: sum.splits bool.splits)

lemma slept_after_call:
  "slept (after_call call attempt s) = slept s @ (if attempt > 0 then [2 ^ attempt] else [])"
  by (simp add: after_call_def before_call_def Let_def)

lemma upt_from_max:
  "Suc a \<le> r \<Longrightarrow> (if a > 0 then [a] else []) @ [max (Suc a) 1..<Suc r] = [max a 1..<Suc r]"
  by (cases a) (simp_all add: upt_conv_Cons max_def)

lemma retry_loop_slept:
  "retry_loop call max_retries img out attempt s = (Some res, s') \<Longrightarrow>
   attempt \<le> retries res \<and>
   slept s' = slept s @ map (\<lambda>k. 2 ^ k) [max attempt 1..<Suc (retries res)]"
proof (induction "nat (max_retries - int attempt)" arbitrary: attempt s)
  case 0
  then have "\<not> int attempt < max_retries" by simp
  with "0.prems" show ?case by (simp add: retry_loop_done)
next
  case (Suc n)
  then have lt: "int attempt < max_retries" by linarith
  show ?case
  proof (cases "call_result call attempt s = Inr True")
    case True
    with Suc.prems lt show ?thesis
      by (auto simp: retry_loop_success slept_after_call)
  next
    case fail: False
    show ?thesis
    proof (cases "int attempt < max_retries - 1")
      case False
      with Suc.prems lt fail show ?thesis
        by (auto simp: retry_loop_last slept_after_call)
    next
      case True
      have rec: "retry_loop call max_retries img out (Suc attempt) (after_call call attempt s)
          = (Some res, s')"
        using Suc.prems retry_loop_again [OF True fail] by simp
      have n: "n = nat (max_retries - int (Suc attempt))"
        using Suc.hyps(2) by linarith
      have ih: "Suc attempt \<le> retries res"
        "slept s' = slept (after_call call attempt s)
           @ map (\<lambda>k. 2 ^ k) [max (Suc attempt) 1..<Suc (retries res)]"
        using Suc.hyps(1) [OF n rec] by simp_all
      have "slept s' = slept s @ map (\<lambda>k. 2 ^ k)
          ((if attempt > 0 then [attempt] else []) @ [max (Suc attempt) 1..<Suc (retries res)])"
        unfolding ih(2) slept_after_call by simp
      then show ?thesis
        unfolding upt_from_max [OF ih(1)] using ih(1) by simp
    qed
  qed
qed

lemma powers_increasing: "sorted_wrt (<) (map (\<lambda>k. (2::nat) ^ k) [a..<b])"
  by (simp add: sorted_wrt_map sorted_wrt_iff_nth_less)

lemma process_single_image_flag:
  "fst (process_single_image p fs e img out ty) =
     (case fst (recognise (client p) e img ty) of
        Inl x \<Rightarrow> False
      | Inr content \<Rightarrow> strip content \<noteq> [] \<and> write_error e out = None)"
  by (cases "recognise (client p) e img ty")
    (simp add: process_single_image_unfold split: sum.splits option.splits)

lemma process_single_image_files:
  "fst (process_single_image p fs e img out ty) = False \<Longrightarrow>
   snd (snd (process_single_image p fs e img out ty)) = fs"
  by (cases "recognise (client p) e img ty")
    (simp add: process_single_image_unfold split: sum.splits option.splits if_splits)

text \<open>In the mode \<^verbatim>\<open>'accurate'\<close> the content, if any, is the converted answer of the endpoint.\<close>

lemma recognise_accurate:
  "fst (recognise c e img (ascii ''accurate'')) = Inr content \<Longrightarrow>
   \<exists>r. api_reply e (ascii ''general_basic'') = Inr r \<and> error_code r = None \<and>
       content = convert_to_markdown r"
  by (auto simp: recognise_def accurate_neq accurate_text_ocr_def ocr_request_def
      make_request_def split: sum.splits prod.splits if_splits option.splits)

lemma empty_content_fails:
  assumes "api_reply e (ascii ''general_basic'') = Inr r" "strip (convert_to_markdown r) = []"
  shows "fst (process_single_image p fs e img out (ascii ''accurate'')) = False"
proof (cases "fst (recognise (client p) e img (ascii ''accurate''))")
  case (Inl x)
  then show ?thesis by (simp add: process_single_image_flag)
next
  case (Inr content)
  from recognise_accurate [OF Inr] assms have "strip content = []" by auto
  with Inr show ?thesis by (simp add: process_single_image_flag)
qed

lemma api_error_fails:
  assumes "api_reply e (ascii ''general_basic'') = Inr r" "error_code r \<noteq> None"
  shows "fst (process_single_image p fs e img out (ascii ''accurate'')) = False"
proof (cases "fst (recognise (client p) e img (ascii ''accurate''))")
  case (Inl x)
  then show ?thesis by (simp add: process_single_image_flag)
next
  case (Inr content)
  from recognise_accurate [OF Inr] assms show ?thesis by auto
qed

lemma recognise_sample_any:
  "fst (recognise c (sample_env (Inr r)) img (ascii ''accurate'')) =
     (if error_code r \<noteq> None
      then Inl (ApiError (case error_msg r of None \<Rightarrow> ascii ''Unknown error'' | Some m \<Rightarrow> m))
      else Inr (convert_to_markdown r))"
proof -
  have env: "image_bytes (sample_env (Inr r)) img = Inr []"
    "api_reply (sample_env (Inr r)) (ascii ''general_basic'') = Inr r"
    "token_reply (sample_env (Inr r)) =
       Inr \<lparr>tok_access_token = Some (ascii ''T''), tok_expires_in = Some 3600\<rparr>"
    by (simp_all add: sample_env_def)
  show ?thesis
    by (simp add: recognise_def accurate_neq accurate_text_ocr_def ocr_request_def
        make_request_def ensure_token_valid_def get_access_token_def env float_of_int_3600)
qed

lemma single_image_call_fst:
  "fst (single_image_call e img out p fs) = Inr (fst (process_single_image p fs e img out (ascii ''accurate'')))"
  by (simp add: single_image_call_def split: prod.splits)

lemma single_image_call_snd:
  "fst (snd (single_image_call e img out p fs)) = fst (snd (process_single_image p fs e img out (ascii ''accurate'')))"
  "snd (snd (single_image_call e img out p fs)) = snd (snd (process_single_image p fs e img out (ascii ''accurate'')))"
  by (simp_all add: single_image_call_def split: prod.splits)

lemma after_call_single:
  "processor (after_call (\<lambda>k. single_image_call (envs k) img out) a s) =
     fst (snd (process_single_image (processor s) (written s) (envs a) img out (ascii ''accurate'')))"
  "written (after_call (\<lambda>k. single_image_call (envs k) img out) a s) =
     snd (snd (process_single_image (processor s) (written s) (envs a) img out (ascii ''accurate'')))"
  by (simp_all add: after_call_def Let_def before_call_sel single_image_call_snd)

lemma after_call_stats:
  "stats_failed_count (after_call call a s) = stats_failed_count s"
  "stats_success_count (after_call call a s) = stats_success_count s"
  "stats_total_processed (after_call call a s) = stats_total_processed s"
  by (simp_all add: after_call_def Let_def before_call_def)

lemma failed_call_counters:
  assumes "fst (process_single_image p fs e img out ty) = False"
  shows "processed_count (fst (snd (process_single_image p fs e img out ty))) = processed_count p + 1"
    "failed_count (fst (snd (process_single_image p fs e img out ty))) = failed_count p + 1"
    "success_count (fst (snd (process_single_image p fs e img out ty))) = success_count p"
proof -
  obtain ok p' fs' where eq: "process_single_image p fs e img out ty = (ok, p', fs')"
    by (cases "process_single_image p fs e img out ty") auto
  with assms have "\<not> ok" by simp
  with process_single_image_step [OF eq] eq
  show "processed_count (fst (snd (process_single_image p fs e img out ty))) = processed_count p + 1"
    "failed_count (fst (snd (process_single_image p fs e img out ty))) = failed_count p + 1"
    "success_count (fst (snd (process_single_image p fs e img out ty))) = success_count p"
    by simp_all
qed

lemma retry_loop_all_empty:
  assumes empty: "\<forall>k. \<exists>r. api_reply (envs k) (ascii ''general_basic'') = Inr r \<and>
      strip (convert_to_markdown r) = []"
  shows "int a < max_retries \<Longrightarrow>
    \<exists>s'. retry_loop (\<lambda>k. single_image_call (envs k) img out) max_retries img out a s =
        (Some \<lparr>success = False, image_file = img, output_file = out, char_count = 0,
               word_count = 0, error = Some failed_msg, retries = nat (max_retries - 1)\<rparr>, s') \<and>
      processed_count (processor s') = processed_count (processor s) + nat (max_retries - int a) \<and>
      failed_count (processor s') = failed_count (processor s) + nat (max_retries - int a) \<and>
      success_count (processor s') = success_count (processor s) \<and>
      written s' = written s \<and> stats_failed_count s' = stats_failed_count s + 1"
proof (induction "nat (max_retries - int a)" arbitrary: a s)
  case 0
  then show ?case by simp
next
  case (Suc n)
  let ?call = "\<lambda>k. single_image_call (envs k) img out"
  let ?s1 = "after_call ?call a s"
  have flag: "fst (process_single_image (processor s) (written s) (envs a) img out
      (ascii ''accurate'')) = False"
    using empty empty_content_fails by blast
  have res: "call_result ?call a s = Inr False"
    by (simp add: call_result_def single_image_call_fst flag)
  note cnt = failed_call_counters [OF flag]
  have wr: "written ?s1 = written s"
    by (simp add: after_call_single process_single_image_files [OF flag])
  show ?case
  proof (cases "int a < max_retries - 1")
    case False
    with Suc.prems have a: "a = nat (max_retries - 1)" "nat (max_retries - int a) = 1"
      by linarith+
    have "retry_loop ?call max_retries img out a s =
        (Some \<lparr>success = False, image_file = img, output_file = out, char_count = 0,
               word_count = 0, error = Some failed_msg, retries = a\<rparr>,
         ?s1\<lparr>stats_failed_count := stats_failed_count ?s1 + 1\<rparr>)"
      using retry_loop_last [OF Suc.prems False, of ?call s img out] res by simp
    then show ?thesis
      using a cnt wr by (simp add: after_call_single after_call_stats)
  next
    case True
    have n: "n = nat (max_retries - int (Suc a))"
      using Suc.hyps(2) by linarith
    have lt: "int (Suc a) < max_retries"
      using True by simp
    from Suc.hyps(1) [OF n lt, of ?s1]
    obtain s' where s': "retry_loop ?call max_retries img out (Suc a) ?s1 =
        (Some \<lparr>success = False, image_file = img, output_file = out, char_count = 0,
               word_count = 0, error = Some failed_msg, retries = nat (max_retries - 1)\<rparr>, s')"
      "processed_count (processor s') = processed_count (processor ?s1) + nat (max_retries - int (Suc a))"
      "failed_count (processor s') = failed_count (processor ?s1) + nat (max_retries - int (Suc a))"
      "success_count (processor s') = success_count (processor ?s1)"
      "written s' = written ?s1" "stats_failed_count s' = stats_failed_count ?s1 + 1"
      by blast
    have step: "retry_loop ?call max_retries img out a s =
        retry_loop ?call max_retries img out (Suc a) ?s1"
      using retry_loop_again [OF True, of ?call s img out] res by simp
    have m: "nat (max_retries - int a) = Suc (nat (max_retries - int (Suc a)))"
      using True by linarith
    show ?thesis
      unfolding step using s' cnt wr m
      by (simp add: after_call_single after_call_stats)
  qed
qed

lemma process_with_retry_all_empty:
  assumes mx: "1 \<le> max_retries"
    and empty: "\<forall>k. \<exists>r. api_reply (envs k) (ascii ''general_basic'') = Inr r \<and>
      strip (convert_to_markdown r) = []"
  shows "\<exists>s'. process_with_retry envs max_retries img out s =
        (Some \<lparr>success = False, image_file = img, output_file = out, char_count = 0,
               word_count = 0, error = Some failed_msg, retries = nat (max_retries - 1)\<rparr>, s') \<and>
      processed_count (processor s') = processed_count (processor s) + nat max_retries \<and>
      failed_count (processor s') = failed_count (processor s) + nat max_retries \<and>
      success_count (processor s') = success_count (processor s) \<and>
      written s' = written s \<and> stats_failed_count s' = stats_failed_count s + 1 \<and>
      slept s' = slept s @ map (\<lambda>k. 2 ^ k) [1..<nat max_retries]"
proof -
  let ?call = "\<lambda>k. single_image_call (envs k) img out"
  let ?res = "\<lparr>success = False, image_file = img, output_file = out, char_count = 0,
               word_count = 0, error = Some failed_msg, retries = nat (max_retries - 1)\<rparr>"
  have lt: "int 0 < max_retries" using mx by simp
  from retry_loop_all_empty [OF empty lt, of img out s]
  obtain s' where s': "retry_loop ?call max_retries img out 0 s = (Some ?res, s')"
      "processed_count (processor s') = processed_count (processor s) + nat max_retries"
      "failed_count (processor s') = failed_count (processor s) + nat max_retries"
      "success_count (processor s') = success_count (processor s)"
      "written s' = written s" "stats_failed_count s' = stats_failed_count s + 1"
    by auto
  have suc: "Suc (nat (max_retries - 1)) = nat max_retries"
    using mx by linarith
  have "slept s' = slept s @ map (\<lambda>k. 2 ^ k) [1..<nat max_retries]"
    using retry_loop_slept [OF s'(1)] by (simp add: suc)
  with s' show ?thesis
    by (auto simp: process_with_retry_def process_with_retry_calling_def)
qed

text \<open>
  Claim C1, amended. An answer that converts to empty or blank text makes
  \<^verbatim>\<open>process_single_image\<close> return false and write no file. \<^verbatim>\<open>process_with_retry\<close>
  retries it like any other failure: when every attempt finds empty content, it makes all
  \<^verbatim>\<open>max_retries\<close> attempts, sleeping before each retry, and then returns a failed
  outcome with the general failure text and \<^verbatim>\<open>retries = max_retries - 1\<close>.
\<close>

theorem empty_content_retried:
  "(api_reply e (ascii ''general_basic'') = Inr r \<and> error_code r = None \<and>
    strip (convert_to_markdown r) = [] \<longrightarrow>
      fst (process_single_image p fs e img out (ascii ''accurate'')) = False \<and>
      snd (snd (process_single_image p fs e img out (ascii ''accurate''))) = fs) \<and>
   (1 \<le> max_retries \<and>
    (\<forall>k. \<exists>r. api_reply (envs k) (ascii ''general_basic'') = Inr r \<and> error_code r = None \<and>
       strip (convert_to_markdown r) = []) \<longrightarrow>
      (\<exists>s'. process_with_retry envs max_retries img out s =
          (Some \<lparr>success = False, image_file = img, output_file = out, char_count = 0,
                 word_count = 0, error = Some failed_msg, retries = nat (max_retries - 1)\<rparr>, s') \<and>
        processed_count (processor s') = processed_count (processor s) + nat max_retries \<and>
        failed_count (processor s') = failed_count (processor s) + nat max_retries \<and>
        written s' = written s \<and>
        slept s' = slept s @ map (\<lambda>k. 2 ^ k) [1..<nat max_retries]))"
proof -
  have one: "fst (process_single_image p fs e img out (ascii ''accurate'')) = False \<and>
      snd (snd (process_single_image p fs e img out (ascii ''accurate''))) = fs"
    if "api_reply e (ascii ''general_basic'') = Inr r" "strip (convert_to_markdown r) = []"
    using empty_content_fails [OF that] process_single_image_files by blast
  have all: "\<exists>s'. process_with_retry envs max_retries img out s =
          (Some \<lparr>success = False, image_file = img, output_file = out, char_count = 0,
                 word_count = 0, error = Some failed_msg, retries = nat (max_retries - 1)\<rparr>, s') \<and>
        processed_count (processor s') = processed_count (processor s) + nat max_retries \<and>
        failed_count (processor s') = failed_count (processor s) + nat max_retries \<and>
        written s' = written s \<and>
        slept s' = slept s @ map (\<lambda>k. 2 ^ k) [1..<nat max_retries]"
    if "1 \<le> max_retries" "\<forall>k. \<exists>r. api_reply (envs k) (ascii ''general_basic'') = Inr r \<and>
       error_code r = None \<and> strip (convert_to_markdown r) = []"
  proof -
    from that(2) have "\<forall>k. \<exists>r. api_reply (envs k) (ascii ''general_basic'') = Inr r \<and>
      strip (convert_to_markdown r) = []" by blast
    from process_with_retry_all_empty [OF that(1) this, of img out s] show ?thesis by blast
  qed
  show ?thesis using one all by blast
qed

lemma sample_env_api: "api_reply (sample_env reply) endpoint = reply"
  by (simp add: sample_env_def)

lemma sample_state_sel:
  "processor sample_state = sample_processor" "slept sample_state = []"
  "written sample_state = Map.empty"
  by (simp_all add: sample_state_def)

text \<open>
  Claim C1, as stated, fails: with an answer that has no words and three attempts allowed,
  the processor is called three times and the loop sleeps twice.
\<close>

theorem empty_content_retried_counterexample:
  "strip (convert_to_markdown empty_answer) = []
   \<and> map_option retries (fst (process_with_retry (every_attempt (sample_env (Inr empty_answer))) 3
        (ascii ''in/a.jpg'') (ascii ''out/a_baidu_retry.md'') sample_state)) = Some 2
   \<and> processed_count (processor (snd (process_with_retry (every_attempt (sample_env (Inr empty_answer))) 3
        (ascii ''in/a.jpg'') (ascii ''out/a_baidu_retry.md'') sample_state))) = 3
   \<and> slept (snd (process_with_retry (every_attempt (sample_env (Inr empty_answer))) 3
        (ascii ''in/a.jpg'') (ascii ''out/a_baidu_retry.md'') sample_state)) = [2, 4]"
proof -
  have e: "strip (convert_to_markdown empty_answer) = []"
    by (simp add: empty_content strip_Nil)
  then have "\<forall>k. \<exists>r. api_reply (every_attempt (sample_env (Inr empty_answer)) k)
        (ascii ''general_basic'') = Inr r \<and> strip (convert_to_markdown r) = []"
    by (simp add: sample_env_api every_attempt_def)
  from process_with_retry_all_empty [of 3 "every_attempt (sample_env (Inr empty_answer))", OF _ this,
      of "ascii ''in/a.jpg''" "ascii ''out/a_baidu_retry.md''" sample_state]
  show ?thesis
    using e by (auto simp: sample_state_sel sample_processor_sel upt_conv_Cons)
qed

theorem empty_content_retried_witness:
  "fst (process_single_image sample_processor Map.empty (sample_env (Inr empty_answer))
      (ascii ''in/a.jpg'') (ascii ''out/a_baidu_retry.md'') (ascii ''accurate'')) = False
   \<and> (\<exists>s'. process_with_retry (\<lambda>k. sample_env (Inr empty_answer)) 2
        (ascii ''in/a.jpg'') (ascii ''out/a_baidu_retry.md'') sample_state =
          (Some \<lparr>success = False, image_file = ascii ''in/a.jpg'',
                 output_file = ascii ''out/a_baidu_retry.md'', char_count = 0,
                 word_count = 0, error = Some failed_msg, retries = 1\<rparr>, s') \<and>
        processed_count (processor s') = 2 \<and> slept s' = [2])"
proof -
  have e: "strip (convert_to_markdown empty_answer) = []"
    by (simp add: empty_content strip_Nil)
  show ?thesis
    using empty_content_retried [of "sample_env (Inr empty_answer)" empty_answer sample_processor Map.empty
        "ascii ''in/a.jpg''" "ascii ''out/a_baidu_retry.md''" 2
        "\<lambda>k. sample_env (Inr empty_answer)" sample_state] e
    by (auto simp: sample_env_api error_code_answers sample_state_sel sample_processor_sel
        upt_conv_Cons)
qed

lemma after_call_eq:
  "after_call call k s =
     s\<lparr>slept := slept s @ (if 0 < k then [2 ^ k] else []),
       processor := fst (snd (call k (processor s) (written s))),
       written := snd (snd (call k (processor s) (written s)))\<rparr>"
  by (simp add: after_call_def before_call_def Let_def)

lemma after_call_processed:
  "processed_count (processor (after_call (\<lambda>k. single_image_call (envs k) img out) k s)) =
     processed_count (processor s) + 1"
proof -
  obtain ok p' fs' where eq: "process_single_image (processor s) (written s) (envs k) img out
      (ascii ''accurate'') = (ok, p', fs')"
    by (cases "process_single_image (processor s) (written s) (envs k) img out (ascii ''accurate'')")
      auto
  from process_single_image_step [OF eq] eq show ?thesis
    by (simp add: after_call_single)
qed

text \<open>
  Claim C2. If the call fails at the first two attempts (it returns false or raises) and
  succeeds at the third, and at least three attempts are allowed (the default is three),
  then \<^verbatim>\<open>process_with_retry\<close> returns the successful outcome with \<^verbatim>\<open>retries\<close>
  equal to 2 and the counts read back from the artifact, in exactly the state reached by
  making the three calls in turn, sleeping 2 seconds before the second and 4 before the
  third, and counting one success. The theorem also says what one iteration does to the
  state (the sleep before every attempt but the first, then the call with the processor
  and the files as they are), that with \<^verbatim>\<open>process_single_image\<close> as the call every
  attempt is counted by the processor, and that in every run that returns an outcome the
  delay slept before attempt \<open>k\<close> (for \<open>k\<close> from 1 to \<^verbatim>\<open>retries\<close>) is \<open>2 ^ k\<close>,
  so the delays are strictly increasing.
\<close>

theorem process_with_retry_backoff:
  "(3 \<le> max_retries \<and> call_result call 0 s \<noteq> Inr True \<and>
    call_result call 1 (after_call call 0 s) \<noteq> Inr True \<and>
    call_result call 2 (after_call call 1 (after_call call 0 s)) = Inr True \<longrightarrow>
      (let s3 = after_call call 2 (after_call call 1 (after_call call 0 s)) in
       process_with_retry_calling call max_retries img out s =
         (Some \<lparr>success = True, image_file = img, output_file = out,
                char_count = fst (read_counts (written s3) out),
                word_count = snd (read_counts (written s3) out),
                error = None, retries = 2\<rparr>,
          s3\<lparr>stats_success_count := stats_success_count s + 1\<rparr>) \<and>
       slept s3 = slept s @ [2, 4])) \<and>
   call_result call k s = fst (call k (processor s) (written s)) \<and>
   after_call call k s =
     s\<lparr>slept := slept s @ (if 0 < k then [2 ^ k] else []),
       processor := fst (snd (call k (processor s) (written s))),
       written := snd (snd (call k (processor s) (written s)))\<rparr> \<and>
   processed_count (processor (after_call (\<lambda>k. single_image_call (envs k) img out) k s)) =
     processed_count (processor s) + 1 \<and>
   (process_with_retry_calling call max_retries img out s = (Some res, s') \<longrightarrow>
      slept s' = slept s @ map (\<lambda>k. 2 ^ k) [1..<Suc (retries res)] \<and>
      sorted_wrt (<) (map (\<lambda>k. (2::nat) ^ k) [1..<Suc (retries res)]))"
proof -
  let ?s1 = "after_call call 0 s"
  let ?s2 = "after_call call 1 ?s1"
  let ?s3 = "after_call call 2 ?s2"
  have scenario: "process_with_retry_calling call max_retries img out s =
         (Some \<lparr>success = True, image_file = img, output_file = out,
                char_count = fst (read_counts (written ?s3) out),
                word_count = snd (read_counts (written ?s3) out),
                error = None, retries = 2\<rparr>,
          ?s3\<lparr>stats_success_count := stats_success_count s + 1\<rparr>) \<and>
       slept ?s3 = slept s @ [2, 4]"
    if mx: "3 \<le> max_retries" and r0: "call_result call 0 s \<noteq> Inr True"
      and r1: "call_result call 1 ?s1 \<noteq> Inr True" and r2: "call_result call 2 ?s2 = Inr True"
  proof -
    have "retry_loop call max_retries img out 0 s = retry_loop call max_retries img out (Suc 0) ?s1"
      using mx by (intro retry_loop_again r0) simp
    also have "\<dots> = retry_loop call max_retries img out (Suc (Suc 0)) (after_call call (Suc 0) ?s1)"
      using mx r1 by (intro retry_loop_again) simp_all
    also have "\<dots> = retry_loop call max_retries img out 2 ?s2"
      by (simp add: numeral_2_eq_2)
    also have "\<dots> =
       (Some \<lparr>success = True, image_file = img, output_file = out,
            char_count = fst (read_counts (written ?s3) out),
            word_count = snd (read_counts (written ?s3) out),
            error = None, retries = 2\<rparr>,
        ?s3\<lparr>stats_success_count := stats_success_count ?s3 + 1\<rparr>)"
      using mx by (intro retry_loop_success r2) simp
    finally have run: "process_with_retry_calling call max_retries img out s =
       (Some \<lparr>success = True, image_file = img, output_file = out,
            char_count = fst (read_counts (written ?s3) out),
            word_count = snd (read_counts (written ?s3) out),
            error = None, retries = 2\<rparr>,
        ?s3\<lparr>stats_success_count := stats_success_count ?s3 + 1\<rparr>)"
      by (simp add: process_with_retry_calling_def)
    have sl: "slept ?s3 = slept s @ [2, 4]"
      by (simp add: slept_after_call)
    have st: "stats_success_count ?s3 = stats_success_count s"
      by (simp add: after_call_stats)
    show ?thesis
      unfolding run using sl st by simp
  qed
  have backoff: "slept s' = slept s @ map (\<lambda>k. 2 ^ k) [1..<Suc (retries res)]"
    if "process_with_retry_calling call max_retries img out s = (Some res, s')"
    using retry_loop_slept [of call max_retries img out 0 s res s'] that
    by (simp add: process_with_retry_calling_def)
  show ?thesis
    unfolding Let_def
    using scenario backoff powers_increasing [of 1 "Suc (retries res)"]
      after_call_eq [of call k s] after_call_processed [of envs img out k s]
    by (simp add: call_result_def)
qed

lemma process_sample_counts:
  "process_single_image
     \<lparr>client = sample_client, processed_count = a, success_count = b, failed_count = c\<rparr> fs
     (sample_env (Inr r)) img out (ascii ''accurate'') =
     (if error_code r \<noteq> None \<or> strip (convert_to_markdown r) = []
      then (False,
            \<lparr>client = sample_client, processed_count = a + 1, success_count = b,
             failed_count = c + 1\<rparr>, fs)
      else (True,
            \<lparr>client = sample_client, processed_count = a + 1, success_count = b + 1,
             failed_count = c\<rparr>,
            fs(out \<mapsto> header (ascii ''2026-01-01 00:00:00'') (ascii ''accurate'')
                 @ convert_to_markdown r)))"
proof -
  let ?p = "\<lparr>client = sample_client, processed_count = a, success_count = b, failed_count = c\<rparr>"
  have r: "recognise (client ?p) (sample_env (Inr r)) img (ascii ''accurate'') =
     (if error_code r \<noteq> None
      then Inl (ApiError (case error_msg r of None \<Rightarrow> ascii ''Unknown error'' | Some m \<Rightarrow> m))
      else Inr (convert_to_markdown r), sample_client)"
    by (simp add: recognise_sample)
  show ?thesis
    unfolding process_single_image_unfold [OF r] by (simp add: sample_env_sel)
qed

text \<open>
  Two refusals for exceeding the request rate, then an answer with one word: the third
  attempt succeeds, the processor has counted three calls, and the artifact holds the
  header and the word (82 characters, 11 words).
\<close>

theorem process_with_retry_backoff_witness:
  "process_with_retry
     (\<lambda>k. if k < 2 then sample_env (Inr qps_answer) else sample_env (Inr text_answer)) 3
     (ascii ''in/a.jpg'') (ascii ''out/a_baidu_retry.md'') sample_state =
   (Some \<lparr>success = True, image_file = ascii ''in/a.jpg'',
          output_file = ascii ''out/a_baidu_retry.md'', char_count = 82, word_count = 11,
          error = None, retries = 2\<rparr>,
    \<lparr>processor = \<lparr>client = sample_client, processed_count = 3, success_count = 1,
                   failed_count = 2\<rparr>,
     written = [ascii ''out/a_baidu_retry.md'' \<mapsto>
        header (ascii ''2026-01-01 00:00:00'') (ascii ''accurate'') @ ascii ''a''],
     stats_total_processed = 0, stats_success_count = 1, stats_failed_count = 0,
     slept = [2, 4]\<rparr>)"
proof -
  let ?envs = "\<lambda>k::nat. if k < 2 then sample_env (Inr qps_answer) else sample_env (Inr text_answer)"
  let ?img = "ascii ''in/a.jpg''"
  let ?out = "ascii ''out/a_baidu_retry.md''"
  let ?call = "\<lambda>k. single_image_call (?envs k) ?img ?out"
  let ?art = "header (ascii ''2026-01-01 00:00:00'') (ascii ''accurate'') @ ascii ''a''"
  let ?P = "\<lambda>a b c. \<lparr>client = sample_client, processed_count = a, success_count = b,
      failed_count = c\<rparr>"
  let ?S = "\<lambda>p w sl. \<lparr>processor = p, written = w, stats_total_processed = 0,
      stats_success_count = 0, stats_failed_count = 0, slept = sl\<rparr>"
  have q: "error_code qps_answer \<noteq> None"
    by (simp add: qps_answer_def)
  have tx: "error_code text_answer = None" "strip (ascii ''a'') \<noteq> []"
    by (simp_all add: error_code_answers strip_def ascii_def isspace_def)
  have fail: "single_image_call (sample_env (Inr qps_answer)) ?img ?out (?P a b c) fs =
      (Inr False, ?P (a + 1) b (c + 1), fs)" for a b c fs
    by (simp add: single_image_call_def process_sample_counts q)
  have ok: "single_image_call (sample_env (Inr text_answer)) ?img ?out (?P a b c) fs =
      (Inr True, ?P (a + 1) (b + 1) c, fs(?out \<mapsto> ?art))" for a b c fs
    by (simp add: single_image_call_def process_sample_counts tx text_content)
  have s0: "sample_state = ?S (?P 0 0 0) Map.empty []"
    by (simp add: sample_state_def sample_processor_def)
  have s1: "after_call ?call 0 (?S (?P 0 0 0) Map.empty []) = ?S (?P 1 0 1) Map.empty []"
    by (simp add: after_call_eq fail)
  have s2: "after_call ?call 1 (?S (?P 1 0 1) Map.empty []) = ?S (?P 2 0 2) Map.empty [2]"
    by (simp add: after_call_eq fail)
  have s3: "after_call ?call 2 (?S (?P 2 0 2) Map.empty [2])
      = ?S (?P 3 1 2) [?out \<mapsto> ?art] [2, 4]"
    by (simp add: after_call_eq ok)
  have r0: "call_result ?call 0 (?S (?P 0 0 0) Map.empty []) \<noteq> Inr True"
    by (simp add: call_result_def fail)
  have r1: "call_result ?call 1 (?S (?P 1 0 1) Map.empty []) \<noteq> Inr True"
    by (simp add: call_result_def fail)
  have r2: "call_result ?call 2 (?S (?P 2 0 2) Map.empty [2]) = Inr True"
    by (simp add: call_result_def ok)
  have "process_with_retry_calling ?call 3 ?img ?out (?S (?P 0 0 0) Map.empty []) =
      (Some \<lparr>success = True, image_file = ?img, output_file = ?out,
          char_count = fst (read_counts [?out \<mapsto> ?art] ?out),
          word_count = snd (read_counts [?out \<mapsto> ?art] ?out), error = None, retries = 2\<rparr>,
       (?S (?P 3 1 2) [?out \<mapsto> ?art] [2, 4])\<lparr>stats_success_count := 0 + 1\<rparr>)"
    using process_with_retry_backoff [where max_retries = 3 and call = ?call and s = "?S (?P 0 0 0) Map.empty []"
        and img = ?img and out = ?out, THEN conjunct1]
      r0 r1 r2
    unfolding Let_def s1 s2 s3 by simp
  moreover have "read_counts [?out \<mapsto> ?art] ?out = (82, 11)"
    by (simp add: read_counts_def header_def ascii_def split_def isspace_def)
  ultimately show ?thesis
    by (simp add: process_with_retry_def s0)
qed

section \<open>Properties of the artifact paths\<close>

lemma artifact_path_eq_iff:
  "artifact_path out f = artifact_path out g \<longleftrightarrow> stem (path_name f) = stem (path_name g)"
  by (simp add: artifact_path_def path_join_def)

lemma distinct_output_files:
  "distinct (output_files out fs) \<longleftrightarrow> distinct (map (\<lambda>f. stem (path_name f)) fs)"
proof -
  have "inj_on (\<lambda>f. path_join out (f @ ascii ''_baidu.md'')) A" for A
    by (rule inj_onI) (simp add: path_join_def)
  then have "distinct (map (\<lambda>f. path_join out (f @ ascii ''_baidu.md''))
        (map (\<lambda>f. stem (path_name f)) fs))
      \<longleftrightarrow> distinct (map (\<lambda>f. stem (path_name f)) fs)"
    by (simp only: distinct_map) simp
  moreover have "output_files out fs =
      map (\<lambda>f. path_join out (f @ ascii ''_baidu.md'')) (map (\<lambda>f. stem (path_name f)) fs)"
    by (simp add: output_files_def artifact_path_def)
  ultimately show ?thesis
    by simp
qed

text \<open>
  Claim C8, amended. The artifact path is a function of the output directory and of the
  stem of the source file's name: two files get the same artifact path exactly when their
  names have the same stem, and the artifact paths of the discovered files are pairwise
  distinct exactly when the stems are.
\<close>

theorem artifact_paths_by_stem:
  "(artifact_path out f = artifact_path out g \<longleftrightarrow> stem (path_name f) = stem (path_name g)) \<and>
   (distinct (output_files out (get_image_files d entries)) \<longleftrightarrow>
      distinct (map (\<lambda>f. stem (path_name f)) (get_image_files d entries)))"
  using artifact_path_eq_iff distinct_output_files by blast

lemma stem_examples:
  "stem (ascii ''a.jpg'') = ascii ''a''" "stem (ascii ''a.png'') = ascii ''a''"
  "stem (ascii ''b.jpg'') = ascii ''b''"
  by (simp_all add: stem_def ascii_def Let_def)

lemma path_name_examples:
  "path_name (ascii ''in/a.jpg'') = ascii ''a.jpg''"
  "path_name (ascii ''in/a.png'') = ascii ''a.png''"
  "path_name (ascii ''in/b.jpg'') = ascii ''b.jpg''"
  by (simp_all add: path_name_def ascii_def)

lemma discovered_a_a:
  "get_image_files (ascii ''in'') [ascii ''a.jpg'', ascii ''a.png''] =
     [ascii ''in/a.jpg'', ascii ''in/a.png'']"
  by (simp add: get_image_files_def image_extensions_def glob_suffix_def ends_with_def upper_def
      path_join_def ascii_def)

text \<open>
  Claim C8, as stated, fails: a directory holding \<^verbatim>\<open>a.jpg\<close> and \<^verbatim>\<open>a.png\<close> has two
  distinct discovered files with one artifact path.
\<close>

theorem artifact_paths_shared_stem_counterexample:
  "get_image_files (ascii ''in'') [ascii ''a.jpg'', ascii ''a.png''] =
     [ascii ''in/a.jpg'', ascii ''in/a.png'']
   \<and> ascii ''in/a.jpg'' \<noteq> ascii ''in/a.png''
   \<and> artifact_path (ascii ''out'') (ascii ''in/a.jpg'') = ascii ''out/a_baidu.md''
   \<and> artifact_path (ascii ''out'') (ascii ''in/a.png'') = ascii ''out/a_baidu.md''"
proof -
  have "ascii ''in/a.jpg'' \<noteq> ascii ''in/a.png''"
    by (simp add: ascii_def)
  moreover have "artifact_path (ascii ''out'') (ascii ''in/a.jpg'') = ascii ''out/a_baidu.md''"
    "artifact_path (ascii ''out'') (ascii ''in/a.png'') = ascii ''out/a_baidu.md''"
    by (simp_all add: artifact_path_def path_name_examples stem_examples)
      (simp_all add: path_join_def ascii_def)
  ultimately show ?thesis
    using discovered_a_a by simp
qed

theorem artifact_paths_by_stem_witness:
  "artifact_path (ascii ''out'') (ascii ''in/a.jpg'') \<noteq> artifact_path (ascii ''out'') (ascii ''in/b.jpg'')
   \<and> artifact_path (ascii ''out'') (ascii ''in/a.jpg'') = artifact_path (ascii ''out'') (ascii ''in/a.png'')
   \<and> \<not> distinct (output_files (ascii ''out'')
         (get_image_files (ascii ''in'') [ascii ''a.jpg'', ascii ''a.png'']))"
proof -
  have "ascii ''a'' \<noteq> ascii ''b''"
    by (simp add: ascii_def)
  then show ?thesis
    using artifact_paths_by_stem [of "ascii ''out''" "ascii ''in/a.jpg''" "ascii ''in/b.jpg''" "ascii ''in''"
        "[ascii ''a.jpg'', ascii ''a.png'']"]
      artifact_paths_by_stem [of "ascii ''out''" "ascii ''in/a.jpg''" "ascii ''in/a.png''" "ascii ''in''"
        "[ascii ''a.jpg'', ascii ''a.png'']"]
    by (simp add: path_name_examples stem_examples discovered_a_a)
qed

section \<open>Properties of the discovery of images\<close>

lemma ends_with_lower: "ends_with name e \<Longrightarrow> ends_with (lower name) (lower e)"
proof -
  assume e: "ends_with name e"
  then have "drop (length name - length e) (lower name) = lower (drop (length name - length e) name)"
    by (simp add: lower_def drop_map)
  with e show ?thesis
    by (simp add: ends_with_def lower_def)
qed

lemma lower_extensions:
  "ext \<in> set image_extensions \<Longrightarrow> lower ext = ext \<and> lower (upper ext) = ext"
  by (auto simp: image_extensions_def lower_def upper_def ascii_def)

lemma glob_suffix_none:
  assumes "\<forall>name\<in>set entries. \<forall>ext\<in>set image_extensions. \<not> ends_with (lower name) ext"
    and "ext \<in> set image_extensions"
  shows "glob_suffix d entries ext = []" "glob_suffix d entries (upper ext) = []"
proof -
  have "\<not> ends_with name ext" "\<not> ends_with name (upper ext)" if "name \<in> set entries" for name
    using assms that ends_with_lower [of name ext] ends_with_lower [of name "upper ext"]
      lower_extensions [OF assms(2)] by auto
  then show "glob_suffix d entries ext = []" "glob_suffix d entries (upper ext) = []"
    by (simp_all add: glob_suffix_def filter_empty_conv)
qed

lemma get_image_files_none:
  assumes "\<forall>name\<in>set entries. \<forall>ext\<in>set image_extensions. \<not> ends_with (lower name) ext"
  shows "get_image_files d entries = []"
proof -
  have none: "concat (map (\<lambda>ext. glob_suffix d entries ext @ glob_suffix d entries (upper ext))
      image_extensions) = []"
    using glob_suffix_none [OF assms] by simp
  show ?thesis
    unfolding get_image_files_def none by simp
qed

text \<open>
  Claim C9. When no entry of the source directory has one of the extensions jpg, jpeg, png,
  bmp, tiff, compared without regard to case, \<^verbatim>\<open>get_image_files\<close> finds nothing
  and \<^verbatim>\<open>process_batch\<close> returns the dictionary that reports the failure; it raises
  nothing, and leaves the processor and the files as they were.
\<close>

theorem process_batch_no_images:
  "(\<forall>name\<in>set entries. \<forall>ext\<in>set image_extensions. \<not> ends_with (lower name) ext) \<longrightarrow>
     get_image_files image_dir entries = [] \<and>
     process_batch bp fs entries mkdir_error envs image_dir output_dir max_workers =
       Inr (NoImages no_images_msg, bp, fs)"
  using get_image_files_none [of entries image_dir] by (simp add: process_batch_def)

text \<open>
  A directory with a text file and a file named \<^verbatim>\<open>jpg\<close>; neither creating the output
  directory nor the worker pool is reached.
\<close>

theorem process_batch_no_images_witness:
  "process_batch sample_batch_processor Map.empty [ascii ''notes.txt'', ascii ''jpg'']
     (Some (LibraryError [])) (\<lambda>path. sample_env (Inr text_answer)) (ascii ''in'') (ascii ''out'') 0
   = Inr (NoImages no_images_msg, sample_batch_processor, Map.empty)"
proof -
  have "\<forall>name\<in>set [ascii ''notes.txt'', ascii ''jpg'']. \<forall>ext\<in>set image_extensions.
      \<not> ends_with (lower name) ext"
    by (simp add: image_extensions_def ends_with_def lower_def ascii_def)
  then show ?thesis
    using process_batch_no_images [of "[ascii ''notes.txt'', ascii ''jpg'']" "ascii ''in''"
        sample_batch_processor Map.empty "Some (LibraryError [])"
        "\<lambda>path. sample_env (Inr text_answer)" "ascii ''out''" 0]
    by blast
qed

end
